theory Spec2Isabelle
  imports Complex_Main "HOL-Library.Word"
begin

unbundle bit_operations_syntax

text \<open>
  A shallow embedding of the two units of vramfs: the pool of OpenCL buffers with its
  blocks (\<open>memory.cpp\<close>), and the FUSE operations over the SQLite index of entries
  with the path resolution \<open>index_find\<close>. The definitions come first, each next to the
  name of the function of the sources it stands for; the properties follow.
\<close>

section \<open>Machine types and platform constants\<close>

text \<open>
  The C++ integer types of the sources on an LP64 Linux target: \<open>int\<close> is 32 bits wide,
  \<open>int64_t\<close>, \<open>size_t\<close> and \<open>off_t\<close> are 64 bits wide. Signed values are words read
  through \<open>sint\<close> and compared with \<open><s\<close>; a conversion to a narrower type keeps the
  low bits (\<open>ucast\<close>), a conversion of a signed value to a wider type extends the sign
  (\<open>scast\<close>).
\<close>

type_synonym cint = "32 word"
type_synonym int64_t = "64 word"
type_synonym size_t = "64 word"
type_synonym byte = "8 word"

text \<open>The error numbers of \<open>errno.h\<close> and the open flags of \<open>fcntl.h\<close> on Linux.\<close>

definition ENOENT :: cint where "ENOENT = 2"
definition EAGAIN :: cint where "EAGAIN = 11"
definition EACCES :: cint where "EACCES = 13"
definition ENOTDIR :: cint where "ENOTDIR = 20"
definition EISDIR :: cint where "EISDIR = 21"

definition O_RDONLY :: cint where "O_RDONLY = 0"

text \<open>The file type bits of \<open>sys/stat.h\<close>: \<open>S_IFDIR = 0040000\<close> and \<open>S_IFREG = 0100000\<close> (octal).\<close>

definition S_IFDIR :: "32 word" where "S_IFDIR = 16384"
definition S_IFREG :: "32 word" where "S_IFREG = 32768"

section \<open>The index: the \<open>entries\<close> table\<close>

text \<open>
  One row of the table created by \<open>entries_table_sql\<close>. The integer columns hold
  64-bit integers and \<open>name\<close> holds the bytes of a text; no column holds NULL. The
  table is the list of its rows in the order in which a query enumerates them.
\<close>

record entry_row =
  col_id :: int64_t
  col_parent :: int64_t
  col_name :: string
  col_dir :: int64_t
  col_size :: int64_t
  col_atime :: int64_t
  col_mtime :: int64_t
  col_ctime :: int64_t

text \<open>
  A connection as \<open>index_open\<close> returns it, seen through what a query can observe:
  \<open>None\<close> when no statement can be prepared on it (the connection is null or the table
  is missing), otherwise the rows of the shared in-memory table.
\<close>

type_synonym sqlite_handle = "entry_row list option"

definition ROOT_PARENT :: int64_t where "ROOT_PARENT = 0"
definition ROOT_ENTRY :: int64_t where "ROOT_ENTRY = 1"

text \<open>\<open>entry_filter::entry_filter_t\<close> with its three values \<open>all\<close>, \<open>directory\<close>, \<open>file\<close>.\<close>

datatype entry_filter_t = filter_all | filter_directory | filter_file

text \<open>\<open>sqlite3_column_int\<close> returns the low 32 bits of the stored integer.\<close>

definition sqlite3_column_int :: "int64_t \<Rightarrow> cint" where
  "sqlite3_column_int v = ucast v"

text \<open>
  \<open>SELECT id, dir FROM entries WHERE parent = ? AND name = ? LIMIT 1\<close>: the first row
  with the bound parent and name, if there is one.
\<close>

definition select_child :: "entry_row list \<Rightarrow> int64_t \<Rightarrow> string \<Rightarrow> entry_row option" where
  "select_child es parent name =
     find (\<lambda>r. col_parent r = parent \<and> col_name r = name) es"

text \<open>\<open>SELECT dir, size, atime, mtime, ctime FROM entries WHERE id = ?\<close>\<close>

definition select_by_id :: "entry_row list \<Rightarrow> int64_t \<Rightarrow> entry_row option" where
  "select_by_id es i = find (\<lambda>r. col_id r = i) es"

section \<open>Path resolution\<close>

text \<open>
  \<open>getline(stream, part, '/')\<close> on the characters still unread. At the end of the
  stream nothing is extracted and the call fails (\<open>None\<close>). Otherwise the characters up
  to the next separator form the part, and the separator, when there is one, is
  extracted and dropped.
\<close>

definition getline :: "string \<Rightarrow> (string \<times> string) option" where
  "getline stream =
     (if stream = [] then None
      else let part = takeWhile (\<lambda>c. c \<noteq> CHR ''/'') stream
           in Some (part, drop (Suc (length part)) stream))"

text \<open>
  The \<open>while\<close> loop of \<open>index_find\<close>. The state is the unread part of the stream, the
  variables \<open>entry\<close> and \<open>dir\<close>, and the lookups executed so far on the prepared
  statement, each with the parent and the name bound to it.
\<close>

type_synonym lookup = "int64_t \<times> string"

function index_loop ::
  "entry_row list \<Rightarrow> string \<Rightarrow> int64_t \<Rightarrow> bool \<Rightarrow> lookup list \<Rightarrow> int64_t \<times> bool \<times> lookup list"
where
  "index_loop es stream entry dir steps =
     (case getline stream of
        None \<Rightarrow> (entry, dir, steps)
      | Some (part, stream') \<Rightarrow>
          if \<not> dir then (scast (- ENOTDIR), dir, steps)
          else (case select_child es entry part of
                  None \<Rightarrow> (scast (- ENOENT), dir, steps @ [(entry, part)])
                | Some row \<Rightarrow>
                    index_loop es stream' (col_id row) (sqlite3_column_int (col_dir row) \<noteq> 0)
                      (steps @ [(entry, part)])))"
  by pat_completeness auto
termination
  by (relation "measure (\<lambda>(es, stream, entry, dir, steps). length stream)")
     (auto simp: getline_def Let_def split: if_splits)

declare index_loop.simps [simp del]

text \<open>
  \<open>index_find\<close>: the result and the lookups executed. A statement that cannot be
  prepared gives \<open>-EAGAIN\<close>.
\<close>

definition index_find :: "sqlite_handle \<Rightarrow> string \<Rightarrow> entry_filter_t \<Rightarrow> int64_t \<times> lookup list" where
  "index_find db path filt =
     (case db of
        None \<Rightarrow> (scast (- EAGAIN), [])
      | Some es \<Rightarrow>
          (case index_loop es path ROOT_PARENT True [] of
             (entry, dir, steps) \<Rightarrow>
               (if 0 <s entry then
                  (if filt = filter_directory \<and> \<not> dir then scast (- ENOTDIR)
                   else if filt = filter_file \<and> dir then scast (- EISDIR)
                   else entry)
                else entry,
                steps)))"

section \<open>The file system operations\<close>

text \<open>
  \<open>vram_init\<close> on its successful path: the table is created and holds the root row of
  \<open>root_entry_sql\<close>, whose unset columns take the defaults of the schema. The three
  time stamps default to the time of the insertion, which is the parameter \<open>now\<close>.
\<close>

definition root_entry :: "int64_t \<Rightarrow> entry_row" where
  "root_entry now =
     \<lparr>col_id = 1, col_parent = 0, col_name = [], col_dir = 1, col_size = 4096,
      col_atime = now, col_mtime = now, col_ctime = now\<rparr>"

definition vram_init :: "int64_t \<Rightarrow> sqlite_handle" where
  "vram_init now = Some [root_entry now]"

text \<open>The fields of \<open>struct stat\<close>.\<close>

record stat =
  st_dev :: "64 word"
  st_ino :: "64 word"
  st_nlink :: "64 word"
  st_mode :: "32 word"
  st_uid :: "32 word"
  st_gid :: "32 word"
  st_rdev :: "64 word"
  st_size :: int64_t
  st_blksize :: int64_t
  st_blocks :: int64_t
  st_atime :: int64_t
  st_mtime :: int64_t
  st_ctime :: int64_t

text \<open>\<open>memset(stbuf, 0, sizeof(struct stat))\<close>\<close>

definition zero_stat :: stat where
  "zero_stat =
     \<lparr>st_dev = 0, st_ino = 0, st_nlink = 0, st_mode = 0, st_uid = 0, st_gid = 0,
      st_rdev = 0, st_size = 0, st_blksize = 0, st_blocks = 0,
      st_atime = 0, st_mtime = 0, st_ctime = 0\<rparr>"

text \<open>
  Reading a column of the current row of a statement. When the step produced no row,
  the column functions of SQLite return 0.
\<close>

definition column :: "entry_row option \<Rightarrow> (entry_row \<Rightarrow> int64_t) \<Rightarrow> int64_t" where
  "column row col = (case row of None \<Rightarrow> 0 | Some r \<Rightarrow> col r)"

text \<open>
  \<open>vram_getattr\<close>. The parameters \<open>euid\<close> and \<open>egid\<close> are what \<open>geteuid()\<close> and
  \<open>getegid()\<close> return. The result is the return value and the contents of \<open>*stbuf\<close>
  afterwards. The file modes are the octal constants \<open>0755 = 493\<close> and \<open>0444 = 292\<close>.
\<close>

definition vram_getattr ::
  "sqlite_handle \<Rightarrow> 32 word \<Rightarrow> 32 word \<Rightarrow> string \<Rightarrow> stat \<Rightarrow> cint \<times> stat"
where
  "vram_getattr db euid egid path stbuf =
     (let entry = fst (index_find db path filter_all) in
      if 0 <s entry then
        (let row = (case db of None \<Rightarrow> None | Some es \<Rightarrow> select_by_id es entry);
             is_dir = (sqlite3_column_int (column row col_dir) \<noteq> 0)
         in (0,
             zero_stat
               \<lparr>st_mode := (if is_dir then S_IFDIR OR 493 else S_IFREG OR 292),
                st_nlink := (if is_dir then 2 else 1),
                st_uid := euid,
                st_gid := egid,
                st_size := column row col_size,
                st_atime := column row col_atime,
                st_mtime := column row col_mtime,
                st_ctime := column row col_ctime\<rparr>))
      else (ucast entry, stbuf))"

text \<open>\<open>vram_open\<close>; \<open>flags\<close> is \<open>fi->flags\<close>.\<close>

definition vram_open :: "sqlite_handle \<Rightarrow> string \<Rightarrow> cint \<Rightarrow> cint" where
  "vram_open db path flags =
     (let entry = fst (index_find db path filter_file) in
      if 0 <s entry then
        (if flags AND 3 = O_RDONLY then 0 else - EACCES)
      else ucast entry)"

text \<open>A small index with a file \<open>/f\<close> and a directory \<open>/d\<close>, for evaluating the operations.\<close>

definition example_entries :: "entry_row list" where
  "example_entries =
     [root_entry 7,
      \<lparr>col_id = 2, col_parent = 1, col_name = ''f'', col_dir = 0, col_size = 10,
       col_atime = 11, col_mtime = 12, col_ctime = 13\<rparr>,
      \<lparr>col_id = 3, col_parent = 1, col_name = ''d'', col_dir = 1, col_size = 4096,
       col_atime = 21, col_mtime = 22, col_ctime = 23\<rparr>]"

section \<open>The OpenCL device and the block pool\<close>

text \<open>
  The device is outside the program. It is modelled by what the program can observe
  of it. A \<open>cl::Buffer\<close> and a \<open>cl::Event\<close> are handles, numbered in the order of their
  creation; the handle 0 is the null object. The status that each API call returns
  is scripted: the call takes the next entry of \<open>cl_statuses\<close>, and \<open>CL_SUCCESS\<close> once
  the script is used up. A command that the queue accepts acts on the contents of the
  buffers at once, which is what a later command of the in-order queue observes.
\<close>

type_synonym cl_int = cint
type_synonym cl_buffer = nat
type_synonym cl_event = nat

definition CL_SUCCESS :: cl_int where "CL_SUCCESS = 0"

text \<open>
  The calls made on the command queue, with their arguments: the fill
  (buffer, offset, size), the copy (source, destination, source offset, destination
  offset, size), the read and the write (buffer, blocking, offset, size; the write
  with the host bytes it transfers).
\<close>

datatype command =
    FillBuffer cl_buffer size_t size_t
  | CopyBuffer cl_buffer cl_buffer size_t size_t size_t
  | ReadBuffer cl_buffer bool size_t size_t
  | WriteBuffer cl_buffer bool size_t size_t "byte list"

text \<open>
  The globals of \<open>vram::memory\<close> (\<open>has_fillbuffer\<close>, \<open>zero_buffer\<close>, \<open>pool\<close>,
  \<open>total_blocks\<close>) together with the state of the device: the script of statuses, the
  calls issued on the queue, the contents of each buffer by byte index, the numbers of
  buffers and events created, and the events with a registered completion callback.
  The back of the vector \<open>pool\<close> is the end of the list.
\<close>

record memory_state =
  has_fillbuffer :: bool
  zero_buffer :: cl_buffer
  pool :: "cl_buffer list"
  total_blocks :: cint
  cl_statuses :: "cl_int list"
  cl_issued :: "command list"
  cl_memory :: "cl_buffer \<Rightarrow> nat \<Rightarrow> byte"
  cl_buffers :: nat
  cl_events :: nat
  cl_callbacks :: "cl_event list"

definition next_status :: "memory_state \<Rightarrow> cl_int \<times> memory_state" where
  "next_status st =
     (case cl_statuses st of
        [] \<Rightarrow> (CL_SUCCESS, st)
      | r # rs \<Rightarrow> (r, st\<lparr>cl_statuses := rs\<rparr>))"

text \<open>
  \<open>clear_buffer\<close>; \<open>bs\<close> is the constant \<open>block::size\<close>. Its declaration is in
  \<open>memory.hpp\<close>, which is not among the sources at hand: it is a parameter of every
  function that uses it, of type \<open>size_t\<close>, the type in which the sources compute with
  it. The fill writes the byte 0 over the first \<open>bs\<close> bytes, the copy writes the first
  \<open>bs\<close> bytes of \<open>zero_buffer\<close> over them.
\<close>

definition clear_buffer :: "size_t \<Rightarrow> cl_buffer \<Rightarrow> memory_state \<Rightarrow> cl_int \<times> memory_state" where
  "clear_buffer bs buf st =
     (case next_status st of
        (r, st1) \<Rightarrow>
          if has_fillbuffer st1 then
            (r, st1\<lparr>cl_issued := cl_issued st1 @ [FillBuffer buf 0 bs],
                    cl_memory :=
                      (if r = CL_SUCCESS
                       then (cl_memory st1)
                              (buf := \<lambda>k. if k < unat bs then 0 else cl_memory st1 buf k)
                       else cl_memory st1)\<rparr>)
          else
            (r, st1\<lparr>cl_issued := cl_issued st1 @ [CopyBuffer (zero_buffer st1) buf 0 0 bs],
                    cl_memory :=
                      (if r = CL_SUCCESS
                       then (cl_memory st1)
                              (buf := \<lambda>k. if k < unat bs then cl_memory st1 (zero_buffer st1) k
                                          else cl_memory st1 buf k)
                       else cl_memory st1)\<rparr>))"

definition pool_size :: "memory_state \<Rightarrow> cint" where
  "pool_size st = total_blocks st"

definition pool_available :: "memory_state \<Rightarrow> cint" where
  "pool_available st = word_of_nat (length (pool st))"

text \<open>
  \<open>cl::Buffer buf(context, CL_MEM_READ_WRITE, block::size, nullptr, &r)\<close>: the status
  and the new buffer, which is null when the creation failed. The contents of a new
  buffer are whatever the device memory holds there.
\<close>

definition create_buffer :: "memory_state \<Rightarrow> (cl_int \<times> cl_buffer) \<times> memory_state" where
  "create_buffer st =
     (case next_status st of
        (r, st1) \<Rightarrow>
          if r = CL_SUCCESS
          then ((r, Suc (cl_buffers st1)), st1\<lparr>cl_buffers := Suc (cl_buffers st1)\<rparr>)
          else ((r, 0), st1))"

text \<open>\<open>int block_count = 1 + (size - 1) / block::size\<close>: computed in \<open>size_t\<close>, then narrowed to \<open>int\<close>.\<close>

definition block_count :: "size_t \<Rightarrow> size_t \<Rightarrow> cint" where
  "block_count bs sz = ucast (1 + (sz - 1) div bs)"

text \<open>
  The \<open>for\<close> loop of \<open>increase_pool\<close> from the counter \<open>i\<close> on, with its two
  \<open>return\<close> statements. In \<open>i * block::size\<close> the \<open>int\<close> is converted to \<open>size_t\<close>.
\<close>

function increase_pool_loop ::
  "size_t \<Rightarrow> cint \<Rightarrow> cint \<Rightarrow> memory_state \<Rightarrow> size_t \<times> memory_state"
where
  "increase_pool_loop bs count i st =
     (if i <s count then
        (case create_buffer st of
           ((r, buf), st1) \<Rightarrow>
             if r = CL_SUCCESS then
               (case clear_buffer bs buf st1 of
                  (c, st2) \<Rightarrow>
                    if c = CL_SUCCESS then
                      increase_pool_loop bs count (i + 1)
                        (st2\<lparr>pool := pool st2 @ [buf], total_blocks := total_blocks st2 + 1\<rparr>)
                    else (scast i * bs, st2))
             else (scast i * bs, st1))
      else (scast count * bs, st))"
  by pat_completeness auto
termination
proof (relation "measure (\<lambda>(bs, count, i, st). nat (sint count - sint i))")
  show "wf (measure (\<lambda>(bs, count, i, st). nat (sint count - sint i)))"
    by simp
next
  fix bs :: size_t and count i :: cint and st st1 st2 :: memory_state
    and x1 :: "cl_int \<times> cl_buffer" and x y z
  assume "i <s count"
  then have lt: "sint i < sint count"
    by (simp add: word_sless_alt)
  moreover have "sint count < 2 ^ 31"
    using sint_lt [of count] by simp
  moreover have "- (2 ^ 31) \<le> sint i"
    using sint_ge [of i] by simp
  ultimately have "sint (i + 1) = sint i + 1"
    by (simp add: sint_word_ariths signed_take_bit_int_eq_self)
  with lt show
    "((bs, count, i + 1, z\<lparr>pool := pool z @ [y], total_blocks := total_blocks z + 1\<rparr>),
      (bs, count, i, st)) \<in> measure (\<lambda>(bs, count, i, st). nat (sint count - sint i))"
    by simp
qed

declare increase_pool_loop.simps [simp del]

definition increase_pool :: "size_t \<Rightarrow> size_t \<Rightarrow> memory_state \<Rightarrow> size_t \<times> memory_state" where
  "increase_pool bs sz st = increase_pool_loop bs (block_count bs sz) 0 st"

section \<open>Blocks\<close>

record block =
  buffer :: cl_buffer
  dirty :: bool
  last_write :: cl_event

text \<open>
  Modelled from the spec: the initial value of the member \<open>dirty\<close>, which the class
  declaration in \<open>memory.hpp\<close> gives and which is not among the sources at hand.
  "A freshly constructed Block starts dirty."
\<close>

definition dirty_init :: bool where
  "dirty_init = True"

text \<open>
  \<open>block::block()\<close>: takes the buffer at the back of the pool. The event \<open>last_write\<close>
  is default constructed, that is null. The caller makes sure that the pool is not
  empty.
\<close>

definition block_new :: "memory_state \<Rightarrow> block \<times> memory_state" where
  "block_new st =
     (\<lparr>buffer = last (pool st), dirty = dirty_init, last_write = 0\<rparr>,
      st\<lparr>pool := butlast (pool st)\<rparr>)"

text \<open>\<open>block::~block()\<close>\<close>

definition block_delete :: "block \<Rightarrow> memory_state \<Rightarrow> memory_state" where
  "block_delete blk st = st\<lparr>pool := pool st @ [buffer blk]\<rparr>"

text \<open>\<open>allocate\<close>: \<open>None\<close> is the null \<open>block_ref\<close>.\<close>

definition allocate :: "memory_state \<Rightarrow> block option \<times> memory_state" where
  "allocate st =
     (if length (pool st) \<noteq> 0
      then (case block_new st of (blk, st') \<Rightarrow> (Some blk, st'))
      else (None, st))"

text \<open>
  \<open>block::read\<close>. The list \<open>data\<close> is the contents of the caller's memory at \<open>data\<close>;
  the result is its contents afterwards, of which the first \<open>size\<close> bytes are written.
  A read that the device rejects leaves the memory as it is.
\<close>

definition block_read ::
  "block \<Rightarrow> size_t \<Rightarrow> size_t \<Rightarrow> byte list \<Rightarrow> memory_state \<Rightarrow> byte list \<times> memory_state"
where
  "block_read blk offset sz data st =
     (if dirty blk then (replicate (unat sz) 0 @ drop (unat sz) data, st)
      else
        (case next_status st of
           (r, st1) \<Rightarrow>
             (if r = CL_SUCCESS
              then map (\<lambda>k. cl_memory st1 (buffer blk) (unat offset + k)) [0..<unat sz]
                     @ drop (unat sz) data
              else data,
              st1\<lparr>cl_issued := cl_issued st1 @ [ReadBuffer (buffer blk) True offset sz]\<rparr>)))"

text \<open>
  \<open>block::write\<close>. The list \<open>data\<close> is the contents of the caller's memory at \<open>data\<close>,
  of which the device transfers the first \<open>size\<close> bytes; in asynchronous mode these
  are first copied. An accepted write yields a new event, a rejected one leaves the
  event null. The callback is registered on a non-null event only.
\<close>

definition block_write ::
  "size_t \<Rightarrow> block \<Rightarrow> size_t \<Rightarrow> size_t \<Rightarrow> byte list \<Rightarrow> bool \<Rightarrow> memory_state
     \<Rightarrow> block \<times> memory_state"
where
  "block_write bs blk offset sz data async st =
     (let st1 = (if dirty blk \<and> sz \<noteq> bs then snd (clear_buffer bs (buffer blk) st) else st);
          data' = (if async then take (unat sz) data else data);
          bytes = take (unat sz) data'
      in case next_status st1 of
           (r, st2) \<Rightarrow>
             let event = (if r = CL_SUCCESS then Suc (cl_events st2) else 0);
                 st3 = st2
                   \<lparr>cl_issued := cl_issued st2 @ [WriteBuffer (buffer blk) (\<not> async) offset sz bytes],
                    cl_memory :=
                      (if r = CL_SUCCESS
                       then (cl_memory st2)
                              (buffer blk := \<lambda>k.
                                 if unat offset \<le> k \<and> k < unat offset + length bytes
                                 then bytes ! (k - unat offset)
                                 else cl_memory st2 (buffer blk) k)
                       else cl_memory st2),
                    cl_events := (if r = CL_SUCCESS then Suc (cl_events st2) else cl_events st2)\<rparr>;
                 st4 = (if async \<and> event \<noteq> 0
                        then st3\<lparr>cl_callbacks := cl_callbacks st3 @ [event]\<rparr> else st3)
             in (blk\<lparr>last_write := event, dirty := False\<rparr>, st4))"

text \<open>A state of the pool and the device with two free buffers, for evaluating the operations.\<close>

definition example_state :: "cl_int list \<Rightarrow> memory_state" where
  "example_state script =
     \<lparr>has_fillbuffer = True, zero_buffer = 0, pool = [1, 2], total_blocks = 2,
      cl_statuses = script, cl_issued = [], cl_memory = (\<lambda>b k. 255),
      cl_buffers = 2, cl_events = 0, cl_callbacks = []\<rparr>"

section \<open>Properties of path resolution and of the file system operations\<close>

lemma getline_Nil: "getline [] = None" by (simp add: getline_def)

lemma index_loop_Nil: "index_loop es [] e d steps = (e, d, steps)"
  by (subst index_loop.simps) (simp add: getline_Nil)

lemma index_loop_step:
  "getline stream = Some (part, stream') \<Longrightarrow>
   index_loop es stream e d steps =
     (if \<not> d then (scast (- ENOTDIR), d, steps)
      else (case select_child es e part of
              None \<Rightarrow> (scast (- ENOENT), d, steps @ [(e, part)])
            | Some row \<Rightarrow>
                index_loop es stream' (col_id row) (sqlite3_column_int (col_dir row) \<noteq> 0)
                  (steps @ [(e, part)])))"
  by (subst index_loop.simps) simp

lemma getline_Cons:
  "getline (c # cs) =
     Some (takeWhile (\<lambda>c. c \<noteq> CHR ''/'') (c # cs),
           drop (Suc (length (takeWhile (\<lambda>c. c \<noteq> CHR ''/'') (c # cs)))) (c # cs))"
  by (simp add: getline_def Let_def)

lemmas index_loop_Cons = index_loop_step [OF getline_Cons]

lemma index_loop_not_dir:
  "stream \<noteq> [] \<Longrightarrow> index_loop es stream e False steps = (scast (- ENOTDIR), False, steps)"
  by (cases stream) (simp_all add: index_loop_Cons)


lemma takeWhile_sep_shorter:
  "CHR ''/'' \<in> set pre \<Longrightarrow> length (takeWhile (\<lambda>c. c \<noteq> CHR ''/'') pre) < length pre"
  by (induction pre) auto

lemma takeWhile_no_sep:
  "CHR ''/'' \<notin> set pre \<Longrightarrow> takeWhile (\<lambda>c. c \<noteq> CHR ''/'') pre = pre"
  by (induction pre) auto

lemma takeWhile_upto_sep:
  "CHR ''/'' \<notin> set pre \<Longrightarrow> takeWhile (\<lambda>c. c \<noteq> CHR ''/'') (pre @ CHR ''/'' # rest) = pre"
  by (induction pre) auto

lemma takeWhile_before_sep:
  "CHR ''/'' \<in> set pre \<Longrightarrow>
   takeWhile (\<lambda>c. c \<noteq> CHR ''/'') (pre @ rest) = takeWhile (\<lambda>c. c \<noteq> CHR ''/'') pre"
  by (induction pre) auto

lemma getline_SomeD:
  "getline pre = Some (part, pre') \<Longrightarrow>
   pre \<noteq> [] \<and> part = takeWhile (\<lambda>c. c \<noteq> CHR ''/'') pre \<and> pre' = drop (Suc (length part)) pre"
  by (auto simp: getline_def Let_def split: if_splits)

lemma getline_append:
  assumes g: "getline pre = Some (part, pre')"
  shows "getline (pre @ CHR ''/'' # rest) =
     Some (part, if CHR ''/'' \<in> set pre then pre' @ CHR ''/'' # rest else rest)"
proof (cases "CHR ''/'' \<in> set pre")
  case True
  from getline_SomeD [OF g] have part: "part = takeWhile (\<lambda>c. c \<noteq> CHR ''/'') pre"
    and pre': "pre' = drop (Suc (length part)) pre" by simp_all
  have tw: "takeWhile (\<lambda>c. c \<noteq> CHR ''/'') (pre @ CHR ''/'' # rest) = part"
    unfolding part using True by (rule takeWhile_before_sep)
  have "length part < length pre"
    unfolding part using True by (rule takeWhile_sep_shorter)
  then have "drop (Suc (length part)) (pre @ CHR ''/'' # rest) = pre' @ CHR ''/'' # rest"
    by (simp add: pre')
  with tw True show ?thesis
    by (simp add: getline_def Let_def)
next
  case False
  from getline_SomeD [OF g] have part: "part = takeWhile (\<lambda>c. c \<noteq> CHR ''/'') pre" by simp
  have tw: "takeWhile (\<lambda>c. c \<noteq> CHR ''/'') (pre @ CHR ''/'' # rest) = pre"
    using False by (rule takeWhile_upto_sep)
  have tw2: "part = pre"
    unfolding part using False by (rule takeWhile_no_sep)
  from tw tw2 False show ?thesis
    by (simp add: getline_def Let_def)
qed

lemma getline_no_sep:
  "getline pre = Some (part, pre') \<Longrightarrow> CHR ''/'' \<notin> set pre \<Longrightarrow> pre' = []"
  by (auto simp: getline_def Let_def takeWhile_no_sep split: if_splits)

lemma index_loop_file_prefix:
  "index_loop es pre e d steps = (e', False, steps') \<Longrightarrow> rest \<noteq> [] \<Longrightarrow>
   fst (index_loop es (pre @ CHR ''/'' # rest) e d steps) = scast (- ENOTDIR)"
proof (induction es pre e d steps rule: index_loop.induct)
  case (1 es stream entry dir steps)
  show ?case
  proof (cases "getline stream")
    case None
    then have "stream = []" by (simp add: getline_def Let_def split: if_splits)
    with "1.prems" have "dir = False" by (simp add: index_loop_Nil)
    then show ?thesis by (simp add: index_loop_not_dir)
  next
    case (Some p)
    obtain part stream' where p: "p = (part, stream')" by (cases p)
    note g = Some [unfolded p]
    note ga = getline_append [OF g, of rest]
    show ?thesis
    proof (cases dir)
      case False
      then show ?thesis by (simp add: index_loop_not_dir)
    next
      case True
      show ?thesis
      proof (cases "select_child es entry part")
        case None
        with "1.prems" True show ?thesis by (simp add: index_loop_step [OF g])
      next
        case (Some row)
        show ?thesis
        proof (cases "CHR ''/'' \<in> set stream")
          case sep: True
          from "1.prems" True Some
          have inner: "index_loop es stream' (col_id row) (sqlite3_column_int (col_dir row) \<noteq> 0)
                  (steps @ [(entry, part)]) = (e', False, steps')"
            by (simp add: index_loop_step [OF g])
          have "fst (index_loop es (stream' @ CHR ''/'' # rest) (col_id row)
                  (sqlite3_column_int (col_dir row) \<noteq> 0) (steps @ [(entry, part)])) = scast (- ENOTDIR)"
            by (rule "1.IH" [OF g refl _ Some inner "1.prems"(2)]) (simp add: True)
          with Some sep True show ?thesis by (simp add: index_loop_step [OF ga])
        next
          case nosep: False
          from getline_no_sep [OF g nosep] have e: "stream' = []" .
          from "1.prems" True Some e
          have "sqlite3_column_int (col_dir row) = 0"
            by (simp add: index_loop_step [OF g] index_loop_Nil)
          with Some nosep True "1.prems"(2) show ?thesis
            by (simp add: index_loop_step [OF ga] index_loop_not_dir)
        qed
      qed
    qed
  qed
qed


lemma errors_not_positive:
  "\<not> 0 <s (scast (- ENOTDIR) :: int64_t)" "\<not> 0 <s (scast (- ENOENT) :: int64_t)"
  "\<not> 0 <s (scast (- EISDIR) :: int64_t)" "\<not> 0 <s (scast (- EAGAIN) :: int64_t)"
  by (simp_all add: ENOTDIR_def ENOENT_def EISDIR_def EAGAIN_def word_sless_alt)

lemma select_child_in_set: "select_child es p n = Some row \<Longrightarrow> row \<in> set es"
  by (auto simp: select_child_def find_Some_iff)

lemma index_loop_resolved:
  "index_loop es s e0 d0 st = (e, d, st') \<Longrightarrow> 0 <s e \<Longrightarrow>
   (e = e0 \<and> d = d0) \<or>
   (\<exists>row\<in>set es. col_id row = e \<and> d = (sqlite3_column_int (col_dir row) \<noteq> 0))"
proof (induction es s e0 d0 st rule: index_loop.induct)
  case (1 es stream entry dir steps)
  show ?case
  proof (cases "getline stream")
    case None
    then have "stream = []" by (simp add: getline_def Let_def split: if_splits)
    with "1.prems" show ?thesis by (simp add: index_loop_Nil)
  next
    case (Some p)
    obtain part stream' where p: "p = (part, stream')" by (cases p)
    note g = Some [unfolded p]
    show ?thesis
    proof (cases dir)
      case False
      with "1.prems" errors_not_positive show ?thesis by (simp add: index_loop_step [OF g])
    next
      case True
      show ?thesis
      proof (cases "select_child es entry part")
        case None
        with "1.prems" True errors_not_positive show ?thesis by (simp add: index_loop_step [OF g])
      next
        case (Some row)
        from "1.prems" True Some
        have inner: "index_loop es stream' (col_id row) (sqlite3_column_int (col_dir row) \<noteq> 0)
                  (steps @ [(entry, part)]) = (e, d, st')"
          by (simp add: index_loop_step [OF g])
        have "(e = col_id row \<and> d = (sqlite3_column_int (col_dir row) \<noteq> 0)) \<or>
              (\<exists>r\<in>set es. col_id r = e \<and> d = (sqlite3_column_int (col_dir r) \<noteq> 0))"
          by (rule "1.IH" [OF g refl _ Some inner "1.prems"(2)]) (simp add: True)
        with select_child_in_set [OF Some] show ?thesis by auto
      qed
    qed
  qed
qed

lemma select_by_id_unique:
  "distinct (map col_id es) \<Longrightarrow> row \<in> set es \<Longrightarrow> select_by_id es (col_id row) = Some row"
  unfolding select_by_id_def
  by (induction es) (auto simp: image_iff)

lemmas index_eval =
  index_loop_Cons index_loop_Nil select_child_def select_by_id_def example_entries_def
  root_entry_def ROOT_PARENT_def ROOT_ENTRY_def sqlite3_column_int_def word_sless_alt
  ENOTDIR_def ENOENT_def EISDIR_def EACCES_def EAGAIN_def O_RDONLY_def

text \<open>
  Claim C2. Let the components of \<open>pre\<close> resolve to an entry that is not a directory
  (the loop leaves \<open>dir\<close> false), and let at least one more component follow: then
  \<open>index_find\<close> returns \<open>-ENOTDIR\<close> for every filter and whatever the later components
  are. And when the loop has consumed all components of a path and ended at an entry
  \<open>e'\<close> with a positive id, the directory filter on a file gives \<open>-ENOTDIR\<close>, the file
  filter on a directory gives \<open>-EISDIR\<close>, and in every other case the id is returned.
\<close>

theorem index_find_type_errors:
  "(index_loop es pre ROOT_PARENT True [] = (e, False, steps) \<and> rest \<noteq> [] \<longrightarrow>
      fst (index_find (Some es) (pre @ CHR ''/'' # rest) filt) = scast (- ENOTDIR)) \<and>
   (index_loop es path ROOT_PARENT True [] = (e', d, steps') \<and> 0 <s e' \<longrightarrow>
      fst (index_find (Some es) path filt) =
        (if filt = filter_directory \<and> \<not> d then scast (- ENOTDIR)
         else if filt = filter_file \<and> d then scast (- EISDIR)
         else e'))"
proof (intro conjI impI)
  assume a: "index_loop es pre ROOT_PARENT True [] = (e, False, steps) \<and> rest \<noteq> []"
  then have "fst (index_loop es (pre @ CHR ''/'' # rest) ROOT_PARENT True []) = scast (- ENOTDIR)"
    by (auto intro: index_loop_file_prefix)
  then show "fst (index_find (Some es) (pre @ CHR ''/'' # rest) filt) = scast (- ENOTDIR)"
    using errors_not_positive(1)
    by (cases "index_loop es (pre @ CHR ''/'' # rest) ROOT_PARENT True []")
       (simp add: index_find_def)
next
  assume "index_loop es path ROOT_PARENT True [] = (e', d, steps') \<and> 0 <s e'"
  then show "fst (index_find (Some es) path filt) =
        (if filt = filter_directory \<and> \<not> d then scast (- ENOTDIR)
         else if filt = filter_file \<and> d then scast (- EISDIR)
         else e')"
    by (simp add: index_find_def)
qed

text \<open>The hypotheses of C2 hold on the example index for \<open>/f/x\<close> and \<open>/f\<close>.\<close>

theorem index_find_type_errors_witness:
  "index_loop example_entries ''/f'' ROOT_PARENT True [] = (2, False, [(0, []), (1, ''f'')]) \<and>
   ''x'' \<noteq> [] \<and> (0 :: int64_t) <s 2 \<and>
   fst (index_find (Some example_entries) ''/f/x'' filter_all) = scast (- ENOTDIR) \<and>
   fst (index_find (Some example_entries) ''/f'' filter_directory) = scast (- ENOTDIR)"
  using index_find_type_errors [of example_entries "''/f''" 2 "[(0, []), (1, ''f'')]" "''x''"
      filter_all "''/f''" 2 False "[(0, []), (1, ''f'')]"]
    index_find_type_errors [of example_entries "''/f''" 2 "[(0, []), (1, ''f'')]" "''x''"
      filter_directory "''/f''" 2 False "[(0, []), (1, ''f'')]"]
  by (simp add: index_eval)

text \<open>
  Claim C7, as amended. On a freshly initialised index the path \<open>/\<close> resolves to the
  root entry, id 1, and it does so through one lookup on the index: the empty
  component before the separator is looked up under the parent \<open>ROOT_PARENT\<close>.
\<close>

theorem index_find_root_lookup:
  "index_find (vram_init now) ''/'' filter_all = (ROOT_ENTRY, [(ROOT_PARENT, [])])"
  by (simp add: index_find_def vram_init_def index_eval)

text \<open>
  Claim C7 as stated fails: resolving \<open>/\<close> on a fresh index does execute a lookup.
\<close>

theorem index_find_root_counterexample:
  "snd (index_find (vram_init 0) ''/'' filter_all) \<noteq> []"
  by (simp add: index_find_def vram_init_def index_eval)

text \<open>
  Claim C8. When the path resolves to an entry with a positive id that is a file,
  \<open>vram_open\<close> returns 0 if the access mode bits of the flags are \<open>O_RDONLY\<close> and
  \<open>-EACCES\<close> otherwise. When the resolution under the file filter fails with
  \<open>-ENOENT\<close>, \<open>-ENOTDIR\<close> or \<open>-EISDIR\<close>, \<open>vram_open\<close> returns that same error.
\<close>

theorem vram_open_access_mode:
  "(index_loop es path ROOT_PARENT True [] = (e, False, steps) \<and> 0 <s e \<longrightarrow>
      vram_open (Some es) path flags = (if flags AND 3 = O_RDONLY then 0 else - EACCES)) \<and>
   (fst (index_find db path' filter_file) = scast (- err) \<and> err \<in> {ENOENT, ENOTDIR, EISDIR} \<longrightarrow>
      vram_open db path' flags' = - err)"
proof (intro conjI impI)
  assume "index_loop es path ROOT_PARENT True [] = (e, False, steps) \<and> 0 <s e"
  then show "vram_open (Some es) path flags = (if flags AND 3 = O_RDONLY then 0 else - EACCES)"
    by (simp add: vram_open_def index_find_def)
next
  assume a: "fst (index_find db path' filter_file) = scast (- err) \<and> err \<in> {ENOENT, ENOTDIR, EISDIR}"
  then have "\<not> 0 <s (scast (- err) :: int64_t)"
    using errors_not_positive by auto
  moreover have "(ucast (scast (- err) :: int64_t) :: cint) = - err"
    using a by (auto simp: ENOENT_def ENOTDIR_def EISDIR_def)
  ultimately show "vram_open db path' flags' = - err"
    using a by (simp add: vram_open_def)
qed

text \<open>The hypotheses of C8 hold on the example index for the file \<open>/f\<close> and the directory \<open>/d\<close>.\<close>

theorem vram_open_access_mode_witness:
  "index_loop example_entries ''/f'' ROOT_PARENT True [] = (2, False, [(0, []), (1, ''f'')]) \<and>
   (0 :: int64_t) <s 2 \<and>
   vram_open (Some example_entries) ''/f'' 0 = 0 \<and>
   vram_open (Some example_entries) ''/f'' 2 = - EACCES \<and>
   fst (index_find (Some example_entries) ''/d'' filter_file) = scast (- EISDIR) \<and>
   EISDIR \<in> {ENOENT, ENOTDIR, EISDIR} \<and>
   vram_open (Some example_entries) ''/d'' 0 = - EISDIR"
  using vram_open_access_mode [where es = example_entries and path = "''/f''" and e = 2
          and steps = "[(0, []), (1, ''f'')]" and flags = 0 and db = "Some example_entries"
          and path' = "''/d''" and err = EISDIR and flags' = 0]
    vram_open_access_mode [where es = example_entries and path = "''/f''" and e = 2
          and steps = "[(0, []), (1, ''f'')]" and flags = 2 and db = "Some example_entries"
          and path' = "''/d''" and err = EISDIR and flags' = 0]
  by (simp add: index_find_def index_eval)

text \<open>
  Claim C9. When the path resolves to an entry with a positive id, on a table whose
  ids are unique (\<open>id\<close> is the primary key), \<open>vram_getattr\<close> returns 0 and fills the
  buffer from the row of that entry: a directory gets the mode \<open>S_IFDIR | 0755\<close> and
  the link count 2, a file gets the mode \<open>S_IFREG | 0444\<close> and the link count 1; owner
  and group are the effective user and group; size and the three time stamps are
  those of the row; every other field is zero.
\<close>

theorem vram_getattr_attributes:
  assumes "index_loop es path ROOT_PARENT True [] = (e, d, steps)"
    and "0 <s e"
    and "distinct (map col_id es)"
  shows "\<exists>row\<in>set es. col_id row = e \<and> d = (sqlite3_column_int (col_dir row) \<noteq> 0) \<and>
     vram_getattr (Some es) euid egid path stbuf =
       (0, zero_stat
             \<lparr>st_mode := (if d then S_IFDIR OR 493 else S_IFREG OR 292),
              st_nlink := (if d then 2 else 1),
              st_uid := euid,
              st_gid := egid,
              st_size := col_size row,
              st_atime := col_atime row,
              st_mtime := col_mtime row,
              st_ctime := col_ctime row\<rparr>)"
proof -
  from index_loop_resolved [OF assms(1,2)] assms(2)
  obtain row where row: "row \<in> set es" "col_id row = e"
      "d = (sqlite3_column_int (col_dir row) \<noteq> 0)"
    by (auto simp: ROOT_PARENT_def word_sless_alt)
  from select_by_id_unique [OF assms(3) row(1)] row(2)
  have sel: "select_by_id es e = Some row" by simp
  have "vram_getattr (Some es) euid egid path stbuf =
       (0, zero_stat
             \<lparr>st_mode := (if d then S_IFDIR OR 493 else S_IFREG OR 292),
              st_nlink := (if d then 2 else 1),
              st_uid := euid,
              st_gid := egid,
              st_size := col_size row,
              st_atime := col_atime row,
              st_mtime := col_mtime row,
              st_ctime := col_ctime row\<rparr>)"
    using assms(1,2) sel row(3)
    by (simp add: vram_getattr_def index_find_def column_def Let_def)
  with row show ?thesis by blast
qed

text \<open>The hypotheses of C9 hold on the example index for the file \<open>/f\<close>.\<close>

theorem vram_getattr_attributes_witness:
  "index_loop example_entries ''/f'' ROOT_PARENT True [] = (2, False, [(0, []), (1, ''f'')]) \<and>
   (0 :: int64_t) <s 2 \<and> distinct (map col_id example_entries) \<and>
   vram_getattr (Some example_entries) 1000 100 ''/f'' zero_stat =
     (0, zero_stat \<lparr>st_mode := S_IFREG OR 292, st_nlink := 1, st_uid := 1000, st_gid := 100,
                    st_size := 10, st_atime := 11, st_mtime := 12, st_ctime := 13\<rparr>)"
  using vram_getattr_attributes [where es = example_entries and path = "''/f''" and e = 2
          and d = False and steps = "[(0, []), (1, ''f'')]" and euid = 1000 and egid = 100
          and stbuf = zero_stat]
  by (auto simp: index_eval)

text \<open>
  Claim C10. On every index on which the statement can be prepared, the empty path
  makes no lookup and \<open>index_find\<close> returns 0, the value of \<open>ROOT_PARENT\<close>, for every
  filter; 0 is not positive and is none of the negative error codes. \<open>vram_getattr\<close>
  on the empty path then returns 0 and leaves \<open>*stbuf\<close> as it was.
\<close>

theorem index_find_empty_path:
  "index_find (Some es) [] filt = (ROOT_PARENT, []) \<and> ROOT_PARENT = 0 \<and>
   \<not> 0 <s fst (index_find (Some es) [] filt) \<and>
   \<not> fst (index_find (Some es) [] filt) <s 0 \<and>
   vram_getattr (Some es) euid egid [] stbuf = (0, stbuf)"
  by (simp add: index_find_def vram_getattr_def index_loop_Nil ROOT_PARENT_def word_sless_alt)


section \<open>Properties of the block pool and of the blocks\<close>

lemma next_status_eq:
  "next_status st =
     (if cl_statuses st = [] then CL_SUCCESS else hd (cl_statuses st),
      st\<lparr>cl_statuses := tl (cl_statuses st)\<rparr>)"
  by (cases "cl_statuses st") (simp_all add: next_status_def)

lemma increase_pool_loop_done:
  "\<not> i <s count \<Longrightarrow> increase_pool_loop bs count i st = (scast count * bs, st)"
  by (subst increase_pool_loop.simps) simp

lemma increase_pool_loop_step:
  "i <s count \<Longrightarrow>
   increase_pool_loop bs count i st =
     (if fst (fst (create_buffer st)) = CL_SUCCESS then
        (if fst (clear_buffer bs (snd (fst (create_buffer st))) (snd (create_buffer st))) = CL_SUCCESS then
           increase_pool_loop bs count (i + 1)
             ((snd (clear_buffer bs (snd (fst (create_buffer st))) (snd (create_buffer st))))
                \<lparr>pool := pool (snd (clear_buffer bs (snd (fst (create_buffer st))) (snd (create_buffer st))))
                            @ [snd (fst (create_buffer st))],
                 total_blocks := total_blocks (snd (clear_buffer bs (snd (fst (create_buffer st))) (snd (create_buffer st)))) + 1\<rparr>)
         else (scast i * bs, snd (clear_buffer bs (snd (fst (create_buffer st))) (snd (create_buffer st)))))
      else (scast i * bs, snd (create_buffer st)))"
  by (subst increase_pool_loop.simps) (simp add: case_prod_beta)

lemma create_buffer_eq:
  "create_buffer st =
     (if (if cl_statuses st = [] then CL_SUCCESS else hd (cl_statuses st)) = CL_SUCCESS
      then ((CL_SUCCESS, Suc (cl_buffers st)),
            st\<lparr>cl_statuses := tl (cl_statuses st), cl_buffers := Suc (cl_buffers st)\<rparr>)
      else ((hd (cl_statuses st), 0), st\<lparr>cl_statuses := tl (cl_statuses st)\<rparr>))"
  by (auto simp: create_buffer_def next_status_eq)

lemma clear_buffer_proj:
  "fst (clear_buffer bs buf st) = (if cl_statuses st = [] then CL_SUCCESS else hd (cl_statuses st))"
  "cl_statuses (snd (clear_buffer bs buf st)) = tl (cl_statuses st)"
  "pool (snd (clear_buffer bs buf st)) = pool st"
  "total_blocks (snd (clear_buffer bs buf st)) = total_blocks st"
  "cl_buffers (snd (clear_buffer bs buf st)) = cl_buffers st"
  "has_fillbuffer (snd (clear_buffer bs buf st)) = has_fillbuffer st"
  "cl_events (snd (clear_buffer bs buf st)) = cl_events st"
  by (simp_all add: clear_buffer_def next_status_eq)

lemma sint_succ: "(i::cint) <s count \<Longrightarrow> sint (i + 1) = sint i + 1"
proof -
  assume "i <s count"
  then have "sint i < sint count" by (simp add: word_sless_alt)
  moreover have "sint count < 2 ^ 31" using sint_lt [of count] by simp
  moreover have "- (2 ^ 31) \<le> sint i" using sint_ge [of i] by simp
  ultimately show ?thesis
    by (simp add: sint_word_ariths signed_take_bit_int_eq_self)
qed

lemma take2_success:
  "\<forall>s\<in>set (take 2 xs). s = CL_SUCCESS \<Longrightarrow>
   (if xs = [] then CL_SUCCESS else hd xs) = CL_SUCCESS \<and>
   (if tl xs = [] then CL_SUCCESS else hd (tl xs)) = CL_SUCCESS"
  by (cases xs; cases "tl xs") auto

lemma increase_pool_loop_ok_step:
  assumes "i <s count" and "\<forall>s\<in>set (take 2 (cl_statuses st)). s = CL_SUCCESS"
  shows "\<exists>st'. increase_pool_loop bs count i st = increase_pool_loop bs count (i + 1) st' \<and>
           cl_statuses st' = drop 2 (cl_statuses st) \<and>
           pool st' = pool st @ [Suc (cl_buffers st)] \<and>
           total_blocks st' = total_blocks st + 1 \<and>
           cl_buffers st' = Suc (cl_buffers st)"
proof -
  from take2_success [OF assms(2)]
  have a: "(if cl_statuses st = [] then CL_SUCCESS else hd (cl_statuses st)) = CL_SUCCESS"
    and b: "(if tl (cl_statuses st) = [] then CL_SUCCESS else hd (tl (cl_statuses st))) = CL_SUCCESS"
    by simp_all
  have cb: "create_buffer st = ((CL_SUCCESS, Suc (cl_buffers st)),
            st\<lparr>cl_statuses := tl (cl_statuses st), cl_buffers := Suc (cl_buffers st)\<rparr>)"
    using a by (simp add: create_buffer_eq)
  have d: "drop 2 (cl_statuses st) = tl (tl (cl_statuses st))"
    by (simp add: drop_Suc numeral_2_eq_2 drop_tl)
  define st1 where "st1 = st\<lparr>cl_statuses := tl (cl_statuses st), cl_buffers := Suc (cl_buffers st)\<rparr>"
  define st2 where "st2 = snd (clear_buffer bs (Suc (cl_buffers st)) st1)"
  have cb': "create_buffer st = ((CL_SUCCESS, Suc (cl_buffers st)), st1)"
    by (simp add: cb st1_def)
  have c1: "fst (clear_buffer bs (Suc (cl_buffers st)) st1) = CL_SUCCESS"
    using b by (auto simp: clear_buffer_proj st1_def split: if_splits)
  have step: "increase_pool_loop bs count i st =
      increase_pool_loop bs count (i + 1)
        (st2\<lparr>pool := pool st2 @ [Suc (cl_buffers st)], total_blocks := total_blocks st2 + 1\<rparr>)"
    by (subst increase_pool_loop_step [OF assms(1)])
       (simp only: cb' fst_conv snd_conv c1 if_True st2_def simp_thms)
  have "cl_statuses st2 = drop 2 (cl_statuses st)" "pool st2 = pool st"
    "total_blocks st2 = total_blocks st" "cl_buffers st2 = Suc (cl_buffers st)"
    by (simp_all add: st2_def st1_def clear_buffer_proj d)
  with step show ?thesis
    by (intro exI [of _ "st2\<lparr>pool := pool st2 @ [Suc (cl_buffers st)], total_blocks := total_blocks st2 + 1\<rparr>"]) simp
qed

lemma increase_pool_loop_ok_steps:
  "sint i + int n \<le> sint count \<Longrightarrow>
   \<forall>s\<in>set (take (2 * n) (cl_statuses st)). s = CL_SUCCESS \<Longrightarrow>
   \<exists>st'. increase_pool_loop bs count i st = increase_pool_loop bs count (i + word_of_nat n) st' \<and>
         cl_statuses st' = drop (2 * n) (cl_statuses st) \<and>
         pool st' = pool st @ map (\<lambda>k. Suc (cl_buffers st + k)) [0..<n] \<and>
         total_blocks st' = total_blocks st + word_of_nat n \<and>
         cl_buffers st' = cl_buffers st + n"
proof (induction n arbitrary: i st)
  case 0
  then show ?case by (intro exI [of _ st]) simp
next
  case (Suc n)
  from Suc.prems(1) have lt: "i <s count" by (simp add: word_sless_alt)
  have two: "\<forall>s\<in>set (take 2 (cl_statuses st)). s = CL_SUCCESS"
  proof
    fix s assume "s \<in> set (take 2 (cl_statuses st))"
    then have "s \<in> set (take (2 * Suc n) (cl_statuses st))"
      using set_take_subset_set_take [of 2 "2 * Suc n" "cl_statuses st"] by auto
    with Suc.prems(2) show "s = CL_SUCCESS" by blast
  qed
  from increase_pool_loop_ok_step [OF lt two, of bs]
  obtain st1 where st1: "increase_pool_loop bs count i st = increase_pool_loop bs count (i + 1) st1"
      "cl_statuses st1 = drop 2 (cl_statuses st)"
      "pool st1 = pool st @ [Suc (cl_buffers st)]"
      "total_blocks st1 = total_blocks st + 1"
      "cl_buffers st1 = Suc (cl_buffers st)"
    by blast
  have bound: "sint (i + 1) + int n \<le> sint count"
    using Suc.prems(1) sint_succ [OF lt] by simp
  have rest: "\<forall>s\<in>set (take (2 * n) (cl_statuses st1)). s = CL_SUCCESS"
  proof
    fix s assume "s \<in> set (take (2 * n) (cl_statuses st1))"
    then have "s \<in> set (take (2 * n) (drop 2 (cl_statuses st)))" by (simp add: st1)
    then have "s \<in> set (drop 2 (take (2 * Suc n) (cl_statuses st)))"
      by (simp add: drop_take)
    then have "s \<in> set (take (2 * Suc n) (cl_statuses st))"
      by (rule in_set_dropD)
    with Suc.prems(2) show "s = CL_SUCCESS" by blast
  qed
  from Suc.IH [OF bound rest]
  obtain st' where st': "increase_pool_loop bs count (i + 1) st1 =
        increase_pool_loop bs count (i + 1 + word_of_nat n) st'"
      "cl_statuses st' = drop (2 * n) (cl_statuses st1)"
      "pool st' = pool st1 @ map (\<lambda>k. Suc (cl_buffers st1 + k)) [0..<n]"
      "total_blocks st' = total_blocks st1 + word_of_nat n"
      "cl_buffers st' = cl_buffers st1 + n"
    by blast
  have m: "map (\<lambda>k. Suc (cl_buffers st + k)) [0..<Suc n] =
        Suc (cl_buffers st) # map (\<lambda>k. Suc (Suc (cl_buffers st) + k)) [0..<n]"
    by (simp add: upt_rec [of 0 "Suc n"] map_Suc_upt [symmetric] del: upt_Suc)
  show ?case
    apply (rule exI [of _ st'])
    apply (simp add: st1 st' m add.assoc del: upt_Suc)
    done
qed


lemma increase_pool_loop_fail:
  assumes "i <s count"
    and "(\<exists>r rs. cl_statuses st = r # rs \<and> r \<noteq> CL_SUCCESS) \<or>
         (\<exists>c rs. cl_statuses st = CL_SUCCESS # c # rs \<and> c \<noteq> CL_SUCCESS)"
  shows "fst (increase_pool_loop bs count i st) = scast i * bs \<and>
         pool (snd (increase_pool_loop bs count i st)) = pool st \<and>
         total_blocks (snd (increase_pool_loop bs count i st)) = total_blocks st \<and>
         cl_statuses (snd (increase_pool_loop bs count i st)) =
           tl (dropWhile (\<lambda>s. s = CL_SUCCESS) (cl_statuses st))"
  using assms(2)
proof (elim disjE exE conjE)
  fix r rs assume "cl_statuses st = r # rs" "r \<noteq> CL_SUCCESS"
  then show ?thesis
    by (subst (1 2 3 4) increase_pool_loop_step [OF assms(1)]) (simp add: create_buffer_eq)
next
  fix c rs assume "cl_statuses st = CL_SUCCESS # c # rs" "c \<noteq> CL_SUCCESS"
  then show ?thesis
    by (subst (1 2 3 4) increase_pool_loop_step [OF assms(1)])
       (simp add: create_buffer_eq clear_buffer_proj)
qed

lemma sint_of_nat_small: "int i < 2 ^ 31 \<Longrightarrow> sint (word_of_nat i :: cint) = int i"
  by (simp add: signed_of_nat signed_take_bit_int_eq_self)

lemma scast_of_nat_small: "int i < 2 ^ 31 \<Longrightarrow> (scast (word_of_nat i :: cint) :: size_t) = word_of_nat i"
  by (simp add: scast_eq sint_of_nat_small)

text \<open>
  Claim C1. Let the block size be non-zero, let step \<open>i\<close> of the loop be reached
  (\<open>i\<close> is below the block count), let the allocation and the clearing of the buffers
  0 to \<open>i - 1\<close> all succeed, and let the next device call that fails be the allocation
  or the clearing of buffer \<open>i\<close>. Then \<open>increase_pool\<close> returns \<open>i * block::size\<close> in
  \<open>size_t\<close> arithmetic, which is the number \<open>i * block::size\<close> for a block size of at
  most \<open>2^32\<close>; the free list is the old one followed by the \<open>i\<close> new buffers;
  \<open>total_blocks\<close> has grown by \<open>i\<close> (in \<open>int\<close> arithmetic); and no device call is made
  after the failing one. The result is a byte count: the function has no error value.
\<close>

theorem increase_pool_first_failure:
  assumes "bs \<noteq> 0"
    and "int i < sint (block_count bs sz)"
    and "cl_statuses st = replicate (2 * i) CL_SUCCESS @ rest"
    and "(\<exists>r rs. rest = r # rs \<and> r \<noteq> CL_SUCCESS) \<or>
         (\<exists>c rs. rest = CL_SUCCESS # c # rs \<and> c \<noteq> CL_SUCCESS)"
  shows "fst (increase_pool bs sz st) = word_of_nat i * bs \<and>
         (unat bs \<le> 2 ^ 32 \<longrightarrow> unat (fst (increase_pool bs sz st)) = i * unat bs) \<and>
         pool (snd (increase_pool bs sz st)) = pool st @ map (\<lambda>k. Suc (cl_buffers st + k)) [0..<i] \<and>
         length (pool (snd (increase_pool bs sz st))) = length (pool st) + i \<and>
         total_blocks (snd (increase_pool bs sz st)) = total_blocks st + word_of_nat i \<and>
         cl_statuses (snd (increase_pool bs sz st)) = tl (dropWhile (\<lambda>s. s = CL_SUCCESS) rest)"
proof -
  let ?count = "block_count bs sz"
  have small: "int i < 2 ^ 31"
    using assms(2) sint_lt [of ?count] by simp
  have ok: "\<forall>s\<in>set (take (2 * i) (cl_statuses st)). s = CL_SUCCESS"
    by (simp add: assms(3))
  have "sint (0 :: cint) + int i \<le> sint ?count"
    using assms(2) by simp
  from increase_pool_loop_ok_steps [OF this ok, of bs]
  obtain st' where st': "increase_pool_loop bs ?count 0 st =
        increase_pool_loop bs ?count (word_of_nat i) st'"
      "cl_statuses st' = drop (2 * i) (cl_statuses st)"
      "pool st' = pool st @ map (\<lambda>k. Suc (cl_buffers st + k)) [0..<i]"
      "total_blocks st' = total_blocks st + word_of_nat i"
    by auto
  have rest: "cl_statuses st' = rest"
    by (simp add: st'(2) assms(3))
  have lt: "(word_of_nat i :: cint) <s ?count"
    using assms(2) small by (simp add: word_sless_alt sint_of_nat_small)
  from increase_pool_loop_fail [OF lt, of st' bs] assms(4) rest
  have f: "fst (increase_pool_loop bs ?count (word_of_nat i) st') = scast (word_of_nat i :: cint) * bs"
      "pool (snd (increase_pool_loop bs ?count (word_of_nat i) st')) = pool st'"
      "total_blocks (snd (increase_pool_loop bs ?count (word_of_nat i) st')) = total_blocks st'"
      "cl_statuses (snd (increase_pool_loop bs ?count (word_of_nat i) st')) =
         tl (dropWhile (\<lambda>s. s = CL_SUCCESS) rest)"
    by simp_all
  have r: "fst (increase_pool bs sz st) = word_of_nat i * bs"
    by (simp add: increase_pool_def st'(1) f(1) scast_of_nat_small [OF small])
  have u: "unat (fst (increase_pool bs sz st)) = i * unat bs" if "unat bs \<le> 2 ^ 32"
  proof -
    have "i < 2 ^ 31" using small by (simp flip: of_nat_less_iff)
    then have "i * unat bs \<le> 2 ^ 31 * 2 ^ 32"
      using that by (intro mult_mono) simp_all
    then have "i * unat bs < 2 ^ 64" by simp
    moreover have "i mod 2 ^ 64 = i" using \<open>i < 2 ^ 31\<close> by simp
    ultimately show ?thesis
      by (simp add: r unat_word_ariths unat_of_nat)
  qed
  show ?thesis
    using r u by (simp add: increase_pool_def st'(1,3,4) f(2,3,4))
qed


text \<open>
  The hypotheses of the theorem on the first failure hold for a block size of 4, a
  request of 10 bytes and a device on which the clearing of the second buffer fails.
\<close>

theorem increase_pool_first_failure_witness:
  "(4 :: size_t) \<noteq> 0 \<and> int 1 < sint (block_count 4 10) \<and>
   cl_statuses (example_state [0, 0, 0, - 5]) = replicate (2 * 1) CL_SUCCESS @ [0, - 5] \<and>
   ((\<exists>r rs. [0, - 5 :: cl_int] = r # rs \<and> r \<noteq> CL_SUCCESS) \<or>
    (\<exists>c rs. [0, - 5 :: cl_int] = CL_SUCCESS # c # rs \<and> c \<noteq> CL_SUCCESS)) \<and>
   fst (increase_pool 4 10 (example_state [0, 0, 0, - 5])) = 4 \<and>
   pool (snd (increase_pool 4 10 (example_state [0, 0, 0, - 5]))) = [1, 2, 3] \<and>
   total_blocks (snd (increase_pool 4 10 (example_state [0, 0, 0, - 5]))) = 3"
proof -
  have h1: "(4 :: size_t) \<noteq> 0" by simp
  have h2: "int 1 < sint (block_count 4 10)" by (simp add: block_count_def)
  have r: "replicate (2 * 1) CL_SUCCESS = [0, 0 :: cl_int]"
    by (simp add: CL_SUCCESS_def numeral_2_eq_2)
  have h3: "cl_statuses (example_state [0, 0, 0, - 5]) = replicate (2 * 1) CL_SUCCESS @ [0, - 5]"
    unfolding r by (simp add: example_state_def)
  have h4: "(\<exists>r rs. [0, - 5 :: cl_int] = r # rs \<and> r \<noteq> CL_SUCCESS) \<or>
    (\<exists>c rs. [0, - 5 :: cl_int] = CL_SUCCESS # c # rs \<and> c \<noteq> CL_SUCCESS)"
    by (simp add: CL_SUCCESS_def)
  have p: "pool (example_state [0, 0, 0, - 5]) = [1, 2]"
    "cl_buffers (example_state [0, 0, 0, - 5]) = 2"
    "total_blocks (example_state [0, 0, 0, - 5]) = 2"
    by (simp_all add: example_state_def)
  have m: "map (\<lambda>k. Suc (2 + k)) [0..<1] = [3]"
    by simp
  from increase_pool_first_failure [OF h1 h2 h3 h4]
  have "fst (increase_pool 4 10 (example_state [0, 0, 0, - 5])) = word_of_nat 1 * 4"
    and "pool (snd (increase_pool 4 10 (example_state [0, 0, 0, - 5]))) = [1, 2] @ [3]"
    and "total_blocks (snd (increase_pool 4 10 (example_state [0, 0, 0, - 5]))) = 2 + word_of_nat 1"
    unfolding p m by blast+
  then have "fst (increase_pool 4 10 (example_state [0, 0, 0, - 5])) = 4"
    and "pool (snd (increase_pool 4 10 (example_state [0, 0, 0, - 5]))) = [1, 2, 3]"
    and "total_blocks (snd (increase_pool 4 10 (example_state [0, 0, 0, - 5]))) = 3"
    by simp_all
  with h1 h2 h3 h4 show ?thesis by blast
qed


lemma sint_ucast_small:
  assumes "unat (w :: size_t) < 2 ^ 31"
  shows "sint (ucast w :: cint) = int (unat w)"
proof -
  have "int (unat w) < 2 ^ 31" using assms by (simp only: of_nat_less_numeral_power_cancel_iff)
  then have u: "uint w < 2 ^ 31" by (simp only: of_nat_unat)
  have "uint (ucast w :: cint) = take_bit 32 (uint w)"
    by (simp add: unsigned_ucast_eq)
  also have "\<dots> = uint w"
    using u by (simp add: take_bit_int_eq_self)
  finally have "uint (ucast w :: cint) = uint w" .
  then have "sint (ucast w :: cint) = signed_take_bit 31 (uint w)"
    by (simp add: sint_uint)
  also have "\<dots> = uint w"
  proof (rule signed_take_bit_int_eq_self)
    have "(0::int) \<le> uint w" by simp
    then show "- (2 ^ 31) \<le> uint w" by (rule order_trans [rotated]) simp
    show "uint w < 2 ^ 31" by (rule u)
  qed
  finally show ?thesis by (simp only: of_nat_unat)
qed

lemma ceil_div_bounds:
  assumes "0 < a" and "0 < (b::nat)"
  shows "(a - 1) div b * b < a" and "a \<le> ((a - 1) div b + 1) * b"
proof -
  have m: "(a - 1) div b * b + (a - 1) mod b = a - 1" by simp
  have r: "(a - 1) mod b < b" using assms(2) by simp
  from m assms(1) show "(a - 1) div b * b < a" by linarith
  from m assms(1) have "a = (a - 1) div b * b + (a - 1) mod b + 1" by linarith
  with r have "a \<le> (a - 1) div b * b + b" by linarith
  then show "a \<le> ((a - 1) div b + 1) * b" by (simp add: algebra_simps)
qed

lemma ceiling_nat_div:
  assumes "0 < a" and "0 < b"
  shows "\<lceil>real a / real b\<rceil> = int ((a - 1) div b + 1)"
proof (rule ceiling_unique)
  note lo = ceil_div_bounds(1) [OF assms] and hi = ceil_div_bounds(2) [OF assms]
  from lo have "real ((a - 1) div b * b) < real a" by (simp only: of_nat_less_iff)
  then show "of_int (int ((a - 1) div b + 1)) - 1 < real a / real b"
    using assms(2) by (simp add: pos_less_divide_eq)
  from hi have "real a \<le> real (((a - 1) div b + 1) * b)" by (simp only: of_nat_le_iff)
  then show "real a / real b \<le> of_int (int ((a - 1) div b + 1))"
    using assms(2) by (simp add: pos_divide_le_eq algebra_simps)
qed

lemma block_count_value:
  assumes "bs \<noteq> 0" and "sz \<noteq> 0" and "(unat sz - 1) div unat bs + 1 < 2 ^ 31"
  shows "block_count bs sz = word_of_nat ((unat sz - 1) div unat bs + 1)"
    and "sint (block_count bs sz) = int ((unat sz - 1) div unat bs + 1)"
proof -
  let ?n = "(unat sz - 1) div unat bs + 1"
  have d: "unat ((sz - 1) div bs) = (unat sz - 1) div unat bs"
    using assms(2) by (simp add: unat_div unat_minus_one)
  have e: "unat (1 + (sz - 1) div bs) = ?n"
    using assms(3) d by (simp add: unat_word_ariths)
  with assms(3) have "unat (1 + (sz - 1) div bs) < 2 ^ 31" by simp
  from sint_ucast_small [OF this] e
  show s: "sint (block_count bs sz) = int ?n" by (simp add: block_count_def)
  have "sint (word_of_nat ?n :: cint) = int ?n"
    using assms(3) by (intro sint_of_nat_small) (simp only: of_nat_less_numeral_power_cancel_iff)
  with s have "sint (block_count bs sz) = sint (word_of_nat ?n :: cint)" by simp
  then show "block_count bs sz = word_of_nat ?n"
    by (rule signed_word_eqI)
qed

lemma increase_pool_loop_all_ok:
  assumes "0 \<le> sint count"
    and "\<forall>s\<in>set (cl_statuses st). s = CL_SUCCESS"
  shows "fst (increase_pool_loop bs count 0 st) = scast count * bs \<and>
         pool (snd (increase_pool_loop bs count 0 st)) =
           pool st @ map (\<lambda>k. Suc (cl_buffers st + k)) [0..<nat (sint count)] \<and>
         total_blocks (snd (increase_pool_loop bs count 0 st)) = total_blocks st + count"
proof -
  let ?n = "nat (sint count)"
  have ok: "\<forall>s\<in>set (take (2 * ?n) (cl_statuses st)). s = CL_SUCCESS"
    using assms(2) by (meson in_set_takeD)
  have "sint (0 :: cint) + int ?n \<le> sint count"
    using assms(1) by simp
  from increase_pool_loop_ok_steps [OF this ok, of bs]
  obtain st' where st': "increase_pool_loop bs count 0 st =
        increase_pool_loop bs count (word_of_nat ?n) st'"
      "pool st' = pool st @ map (\<lambda>k. Suc (cl_buffers st + k)) [0..<?n]"
      "total_blocks st' = total_blocks st + word_of_nat ?n"
    by auto
  have c: "(word_of_nat ?n :: cint) = count"
    using assms(1) by simp
  have "\<not> count <s count" by (simp add: word_sless_alt)
  from increase_pool_loop_done [OF this, of bs st'] st' c
  show ?thesis by simp
qed


text \<open>
  Claim C5, as amended. For a block size between 1 and \<open>2^32\<close> and a request of at
  least one byte whose number of blocks \<open>ceil(size / block_size)\<close> is below \<open>2^31\<close>,
  the block count computed is that ceiling; when every device call succeeds,
  \<open>increase_pool\<close> returns block count times block size, which is at least the request
  and exceeds it by less than one block, and the pool has grown by that many buffers.
\<close>

theorem increase_pool_block_count:
  assumes "bs \<noteq> 0" and "unat bs \<le> 2 ^ 32" and "sz \<noteq> 0"
    and "\<lceil>real (unat sz) / real (unat bs)\<rceil> < 2 ^ 31"
    and "\<forall>s\<in>set (cl_statuses st). s = CL_SUCCESS"
  shows "sint (block_count bs sz) = \<lceil>real (unat sz) / real (unat bs)\<rceil> \<and>
         int (unat (fst (increase_pool bs sz st))) = sint (block_count bs sz) * int (unat bs) \<and>
         unat sz \<le> unat (fst (increase_pool bs sz st)) \<and>
         unat (fst (increase_pool bs sz st)) < unat sz + unat bs \<and>
         pool (snd (increase_pool bs sz st)) =
           pool st @ map (\<lambda>k. Suc (cl_buffers st + k)) [0..<nat (sint (block_count bs sz))] \<and>
         total_blocks (snd (increase_pool bs sz st)) = total_blocks st + block_count bs sz"
proof -
  let ?a = "unat sz" and ?b = "unat bs"
  let ?n = "(?a - 1) div ?b + 1"
  have a: "0 < ?a" using assms(3) by (simp add: unat_gt_0)
  have b: "0 < ?b" using assms(1) by (simp add: unat_gt_0)
  have c: "\<lceil>real ?a / real ?b\<rceil> = int ?n" by (rule ceiling_nat_div [OF a b])
  have "int ?n < 2 ^ 31" using assms(4) unfolding c .
  then have n: "?n < 2 ^ 31" by (simp only: of_nat_less_numeral_power_cancel_iff)
  note bc = block_count_value [OF assms(1) assms(3) n]
  have nonneg: "0 \<le> sint (block_count bs sz)" by (simp add: bc(2))
  note loop = increase_pool_loop_all_ok [OF nonneg assms(5), of bs]
  have "int ?n < 2 ^ 31" using n by (simp only: of_nat_less_numeral_power_cancel_iff)
  then have sc: "(scast (block_count bs sz) :: size_t) = word_of_nat ?n"
    unfolding bc(1) by (rule scast_of_nat_small)
  have "?n * ?b \<le> 2 ^ 31 * 2 ^ 32"
    using n assms(2) by (intro mult_mono) simp_all
  then have small: "?n * ?b < 2 ^ 64" by simp
  have nm: "?n mod 2 ^ 64 = ?n" using n by simp
  have r: "unat (fst (increase_pool bs sz st)) = ?n * ?b"
    using loop small nm by (simp add: increase_pool_def sc unat_word_ariths unat_of_nat)
  have lo: "?a \<le> ?n * ?b" by (rule ceil_div_bounds(2) [OF a b])
  have "(?a - 1) div ?b * ?b < ?a" by (rule ceil_div_bounds(1) [OF a b])
  then have hi: "?n * ?b < ?a + ?b" by (simp add: algebra_simps)
  have e1: "sint (block_count bs sz) = \<lceil>real ?a / real ?b\<rceil>"
    by (simp only: c bc(2))
  have e2: "int (unat (fst (increase_pool bs sz st))) = sint (block_count bs sz) * int ?b"
    by (simp only: r bc(2) of_nat_mult)
  have e3: "?a \<le> unat (fst (increase_pool bs sz st))"
    and e4: "unat (fst (increase_pool bs sz st)) < ?a + ?b"
    using lo hi by (simp_all only: r)
  have e5: "pool (snd (increase_pool bs sz st)) =
           pool st @ map (\<lambda>k. Suc (cl_buffers st + k)) [0..<nat (sint (block_count bs sz))]"
    and e6: "total_blocks (snd (increase_pool bs sz st)) = total_blocks st + block_count bs sz"
    using loop by (simp_all only: increase_pool_def)
  from e1 e2 e3 e4 e5 e6 show ?thesis by blast
qed

text \<open>
  Claim C5 as stated fails for large requests: with a block size of \<open>128 KiB\<close> and a
  request of \<open>2^48\<close> bytes the ceiling is \<open>2^31\<close>, the \<open>int\<close> block count is \<open>-2^31\<close>,
  the loop body never runs and the value returned is \<open>2^64 - 2^48\<close>.
\<close>

theorem increase_pool_block_count_counterexample:
  "sint (block_count 131072 (2 ^ 48)) = - 2147483648 \<and>
   \<lceil>real (unat (2 ^ 48 :: size_t)) / real (unat (131072 :: size_t))\<rceil> = 2147483648 \<and>
   increase_pool 131072 (2 ^ 48) (example_state []) = (- (2 ^ 48), example_state [])"
  by (simp add: block_count_def increase_pool_def increase_pool_loop_done word_sless_alt)

text \<open>
  The hypotheses of the theorem on the block count hold for a block size of 4 and a
  request of 10 bytes on a device that accepts every call: 3 blocks, 12 bytes.
\<close>

theorem increase_pool_block_count_witness:
  "(4 :: size_t) \<noteq> 0 \<and> unat (4 :: size_t) \<le> 2 ^ 32 \<and> (10 :: size_t) \<noteq> 0 \<and>
   \<lceil>real (unat (10 :: size_t)) / real (unat (4 :: size_t))\<rceil> < 2 ^ 31 \<and>
   cl_statuses (example_state []) = [] \<and>
   sint (block_count 4 10) = 3 \<and>
   unat (fst (increase_pool 4 10 (example_state []))) = 12 \<and>
   pool (snd (increase_pool 4 10 (example_state []))) = [1, 2, 3, 4, 5] \<and>
   total_blocks (snd (increase_pool 4 10 (example_state []))) = 5"
proof -
  have h1: "(4 :: size_t) \<noteq> 0" by simp
  have h2: "unat (4 :: size_t) \<le> 2 ^ 32" by simp
  have h3: "(10 :: size_t) \<noteq> 0" by simp
  have h4: "\<lceil>real (unat (10 :: size_t)) / real (unat (4 :: size_t))\<rceil> < 2 ^ 31" by simp
  have h5: "\<forall>s\<in>set (cl_statuses (example_state [])). s = CL_SUCCESS"
    by (simp add: example_state_def)
  have c: "sint (block_count 4 10) = 3" by (simp add: block_count_def)
  have p: "pool (example_state []) = [1, 2]" "cl_buffers (example_state []) = 2"
    "total_blocks (example_state []) = 2"
    by (simp_all add: example_state_def)
  have m: "map (\<lambda>k. Suc (2 + k)) [0..<nat 3] = [3, 4, 5]"
    by (simp add: upt_rec)
  have "block_count 4 10 = 3" by (simp add: block_count_def)
  then have t: "(2 :: cint) + block_count 4 10 = 5" by simp
  have u4: "unat (4 :: size_t) = 4" by simp
  from increase_pool_block_count [OF h1 h2 h3 h4 h5]
  have "int (unat (fst (increase_pool 4 10 (example_state [])))) = 3 * int 4"
    and "pool (snd (increase_pool 4 10 (example_state []))) = [1, 2] @ [3, 4, 5]"
    and "total_blocks (snd (increase_pool 4 10 (example_state []))) = 5"
    unfolding c p m t u4 by blast+
  then have "unat (fst (increase_pool 4 10 (example_state []))) = 12"
    and "pool (snd (increase_pool 4 10 (example_state []))) = [1, 2, 3, 4, 5]"
    and "total_blocks (snd (increase_pool 4 10 (example_state []))) = 5"
    by (linarith, simp_all)
  moreover have "cl_statuses (example_state []) = []" by (simp add: example_state_def)
  ultimately show ?thesis using h1 h2 h3 h4 c by blast
qed

text \<open>
  A request of 0 bytes, where \<open>size - 1\<close> wraps around: the block count is 0 for a block
  size of \<open>128 KiB\<close>, and a large positive number for a block size of 3.
\<close>

lemma block_count_zero_request:
  "block_count 131072 0 = 0 \<and> sint (block_count 3 0) = 1431655766"
  by (simp add: block_count_def)

lemma mult_pred_div:
  assumes "0 < b" and "0 < n"
  shows "(n * b - 1) div b = n - (1 :: nat)"
proof -
  obtain m where n: "n = Suc m" using assms(2) by (cases n) auto
  have "n * b - 1 = m * b + (b - 1)"
    using assms(1) by (simp add: n)
  then have "(n * b - 1) div b = (m * b + (b - 1)) div b"
    by (rule arg_cong)
  also have "\<dots> = m + (b - 1) div b"
    using assms(1) by (intro div_mult_self3) simp
  also have "(b - 1) div b = 0"
    using assms(1) by (intro div_less) simp
  finally show ?thesis by (simp add: n)
qed

text \<open>
  The narrowing is not particular to one block size: for every block size below
  \<open>2^33\<close>, a request of \<open>2^31\<close> blocks gives the block count \<open>-2^31\<close>.
\<close>

lemma block_count_overflow:
  assumes "bs \<noteq> 0" and "unat bs < 2 ^ 33"
  shows "sint (block_count bs (2 ^ 31 * bs)) = - (2 ^ 31)"
proof -
  let ?b = "unat bs"
  have b: "0 < ?b" using assms(1) by (simp add: unat_gt_0)
  have "2 ^ 31 * ?b < 2 ^ 31 * 2 ^ 33"
    using assms(2) by simp
  then have small: "2 ^ 31 * ?b < 2 ^ 64" by simp
  have u: "unat (2 ^ 31 * bs) = 2 ^ 31 * ?b"
    using small by (simp add: unat_word_ariths)
  have nz: "2 ^ 31 * bs \<noteq> 0"
    using u b by (metis mult_eq_0_iff nat_neq_iff power_not_zero unat_0 zero_neq_numeral)
  have m: "unat (2 ^ 31 * bs - 1) = 2 ^ 31 * ?b - 1"
    using unat_minus_one [OF nz] unfolding u .
  have "(2 ^ 31 * ?b - 1) div ?b = 2 ^ 31 - 1"
    by (rule mult_pred_div [OF b]) simp
  then have d: "unat ((2 ^ 31 * bs - 1) div bs) = 2 ^ 31 - 1"
    by (simp only: unat_div m)
  have "(2 ^ 31 * bs - 1) div bs = word_of_nat (unat ((2 ^ 31 * bs - 1) div bs))"
    by simp
  also have "\<dots> = 2 ^ 31 - 1"
    by (simp only: d) simp
  finally have "(2 ^ 31 * bs - 1) div bs = 2 ^ 31 - 1" .
  then show ?thesis
    by (simp add: block_count_def)
qed

text \<open>
  Claim C6. With a non-empty free list, \<open>allocate\<close> returns a block that wraps the
  buffer at the back of the list and removes exactly that buffer from the list; when
  the buffers of the list are distinct the block's buffer is no longer in it;
  \<open>pool_available\<close> goes down by one and \<open>pool_size\<close> stays. With an empty free list,
  \<open>allocate\<close> returns null and leaves the whole state, the device included, as it is.
\<close>

theorem allocate_pops_one:
  "(pool st \<noteq> [] \<longrightarrow>
      (\<exists>blk. allocate st = (Some blk, st\<lparr>pool := butlast (pool st)\<rparr>) \<and>
             buffer blk = last (pool st)) \<and>
      pool (snd (allocate st)) @ [last (pool st)] = pool st \<and>
      (distinct (pool st) \<longrightarrow> last (pool st) \<notin> set (pool (snd (allocate st)))) \<and>
      pool_available (snd (allocate st)) = pool_available st - 1 \<and>
      pool_size (snd (allocate st)) = pool_size st) \<and>
   (pool st = [] \<longrightarrow> allocate st = (None, st))"
proof (intro conjI impI)
  assume ne: "pool st \<noteq> []"
  then have a: "allocate st =
      (Some \<lparr>buffer = last (pool st), dirty = dirty_init, last_write = 0\<rparr>,
       st\<lparr>pool := butlast (pool st)\<rparr>)"
    by (simp add: allocate_def block_new_def)
  then show "\<exists>blk. allocate st = (Some blk, st\<lparr>pool := butlast (pool st)\<rparr>) \<and>
             buffer blk = last (pool st)"
    by simp
  from a ne show "pool (snd (allocate st)) @ [last (pool st)] = pool st"
    by simp
  from ne have "length (pool st) = Suc (length (butlast (pool st)))"
    by (cases "pool st" rule: rev_cases) simp_all
  with a show "pool_available (snd (allocate st)) = pool_available st - 1"
    by (simp add: pool_available_def)
  from a show "pool_size (snd (allocate st)) = pool_size st"
    by (simp add: pool_size_def)
  assume "distinct (pool st)"
  with ne have "last (pool st) \<notin> set (butlast (pool st))"
    by (cases "pool st" rule: rev_cases) simp_all
  with a show "last (pool st) \<notin> set (pool (snd (allocate st)))"
    by simp
next
  assume "pool st = []"
  then show "allocate st = (None, st)"
    by (simp add: allocate_def)
qed

text \<open>The hypotheses of the theorem on \<open>allocate\<close> hold on the example state and on its empty variant.\<close>

theorem allocate_pops_one_witness:
  "pool (example_state []) \<noteq> [] \<and> distinct (pool (example_state [])) \<and>
   pool (snd (allocate (example_state []))) = [1] \<and>
   map_option buffer (fst (allocate (example_state []))) = Some 2 \<and>
   pool_available (snd (allocate (example_state []))) = 1 \<and>
   pool_size (snd (allocate (example_state []))) = 2 \<and>
   pool ((example_state [])\<lparr>pool := []\<rparr>) = [] \<and>
   allocate ((example_state [])\<lparr>pool := []\<rparr>) = (None, (example_state [])\<lparr>pool := []\<rparr>)"
  using allocate_pops_one [of "example_state []"]
    allocate_pops_one [of "(example_state [])\<lparr>pool := []\<rparr>"]
  by (auto simp: example_state_def pool_available_def pool_size_def)

text \<open>
  Claim C3. A block made by the constructor, and so a block returned by \<open>allocate\<close>,
  is dirty. A read on a dirty block writes \<open>size\<close> zero bytes to the output for every
  offset and size, and leaves the state of the device untouched: no command is issued.
  A read on a block that is not dirty issues a blocking read of the buffer.
\<close>

theorem block_read_dirty:
  "dirty (fst (block_new st)) \<and>
   (allocate st = (Some blk', st') \<longrightarrow> dirty blk') \<and>
   (dirty blk \<longrightarrow>
      block_read blk offset sz data st = (replicate (unat sz) 0 @ drop (unat sz) data, st)) \<and>
   (\<not> dirty blk \<longrightarrow>
      cl_issued (snd (block_read blk offset sz data st)) =
        cl_issued st @ [ReadBuffer (buffer blk) True offset sz])"
  by (auto simp: block_new_def dirty_init_def allocate_def block_read_def next_status_eq
           split: if_splits)

text \<open>The hypotheses of the theorem on \<open>block::read\<close> hold for a dirty and for a clean block.\<close>

theorem block_read_dirty_witness:
  "allocate (example_state []) =
     (Some \<lparr>buffer = 2, dirty = True, last_write = 0\<rparr>, (example_state [])\<lparr>pool := [1]\<rparr>) \<and>
   dirty \<lparr>buffer = 2, dirty = True, last_write = 0\<rparr> \<and>
   block_read \<lparr>buffer = 2, dirty = True, last_write = 0\<rparr> 1 2 [7, 8, 9] (example_state []) =
     ([0, 0, 9], example_state []) \<and>
   \<not> dirty \<lparr>buffer = 2, dirty = False, last_write = 1\<rparr> \<and>
   cl_issued (snd (block_read \<lparr>buffer = 2, dirty = False, last_write = 1\<rparr> 1 2 [7, 8, 9]
      (example_state []))) = [ReadBuffer 2 True 1 2]"
proof -
  let ?fresh = "\<lparr>buffer = 2, dirty = True, last_write = 0\<rparr>"
  let ?clean = "\<lparr>buffer = 2, dirty = False, last_write = 1\<rparr>"
  have a: "allocate (example_state []) = (Some ?fresh, (example_state [])\<lparr>pool := [1]\<rparr>)"
    by (simp add: example_state_def allocate_def block_new_def dirty_init_def)
  have d: "dirty ?fresh" and c: "\<not> dirty ?clean" by simp_all
  have u2: "unat (2 :: size_t) = 2" by simp
  have z: "replicate (unat (2 :: size_t)) (0 :: byte) @ drop (unat (2 :: size_t)) [7, 8, 9] = [0, 0, 9]"
    unfolding u2 by (simp add: numeral_2_eq_2)
  have i: "cl_issued (example_state []) = []" by (simp add: example_state_def)
  from block_read_dirty [of "example_state []" ?fresh "(example_state [])\<lparr>pool := [1]\<rparr>" ?fresh
      1 2 "[7, 8, 9]"] d
  have r1: "block_read ?fresh 1 2 [7, 8, 9] (example_state []) = ([0, 0, 9], example_state [])"
    unfolding z by blast
  from block_read_dirty [of "example_state []" ?fresh "(example_state [])\<lparr>pool := [1]\<rparr>" ?clean
      1 2 "[7, 8, 9]"] c
  have r2: "cl_issued (snd (block_read ?clean 1 2 [7, 8, 9] (example_state []))) =
      [] @ [ReadBuffer 2 True 1 2]"
    unfolding i by simp
  from a d c r1 r2 show ?thesis by simp
qed

lemma next_status_all_ok:
  assumes "\<forall>s\<in>set (cl_statuses st). s = CL_SUCCESS"
  shows "fst (next_status st) = CL_SUCCESS"
    and "\<forall>s\<in>set (cl_statuses (snd (next_status st))). s = CL_SUCCESS"
  using assms by (cases "cl_statuses st"; simp add: next_status_def)+

lemma clear_buffer_issued:
  "cl_issued (snd (clear_buffer bs buf st)) =
     cl_issued st @ [if has_fillbuffer st then FillBuffer buf 0 bs
                     else CopyBuffer (zero_buffer st) buf 0 0 bs]"
  by (simp add: clear_buffer_def next_status_eq)

lemma clear_buffer_zeroes:
  assumes "\<forall>s\<in>set (cl_statuses st). s = CL_SUCCESS"
    and "has_fillbuffer st \<or> (\<forall>k<unat bs. cl_memory st (zero_buffer st) k = 0)"
    and "k < unat bs"
  shows "cl_memory (snd (clear_buffer bs buf st)) buf k = 0"
  using assms next_status_all_ok(1) [OF assms(1)]
  by (auto simp: clear_buffer_def next_status_eq split: if_splits)

lemma clear_buffer_statuses_ok:
  assumes "\<forall>s\<in>set (cl_statuses st). s = CL_SUCCESS"
  shows "\<forall>s\<in>set (cl_statuses (snd (clear_buffer bs buf st))). s = CL_SUCCESS"
  using next_status_all_ok(2) [OF assms]
  by (simp add: clear_buffer_def next_status_eq)

lemma block_write_proj:
  assumes st1: "st1 = (if dirty blk \<and> sz \<noteq> bs then snd (clear_buffer bs (buffer blk) st) else st)"
  shows "dirty (fst (block_write bs blk offset sz data async st)) = False"
    and "buffer (fst (block_write bs blk offset sz data async st)) = buffer blk"
    and "last_write (fst (block_write bs blk offset sz data async st)) =
           (if fst (next_status st1) = CL_SUCCESS then Suc (cl_events st1) else 0)"
    and "cl_issued (snd (block_write bs blk offset sz data async st)) =
           cl_issued st1 @ [WriteBuffer (buffer blk) (\<not> async) offset sz (take (unat sz) data)]"
    and "cl_statuses (snd (block_write bs blk offset sz data async st)) = tl (cl_statuses st1)"
    and "cl_memory (snd (block_write bs blk offset sz data async st)) =
           (if fst (next_status st1) = CL_SUCCESS
            then (cl_memory st1)
                   (buffer blk := \<lambda>k.
                      if unat offset \<le> k \<and> k < unat offset + length (take (unat sz) data)
                      then take (unat sz) data ! (k - unat offset)
                      else cl_memory st1 (buffer blk) k)
            else cl_memory st1)"
  unfolding st1
  by (simp_all add: block_write_def Let_def next_status_eq split_beta cong: if_cong)


lemma map_all_zero:
  "(\<And>k. k < n \<Longrightarrow> f k = (0 :: byte)) \<Longrightarrow> map f [0..<n] = replicate n 0"
  by (rule nth_equalityI) simp_all

lemma block_write_proj2:
  assumes st1: "st1 = (if dirty blk \<and> sz \<noteq> bs then snd (clear_buffer bs (buffer blk) st) else st)"
  shows "cl_events (snd (block_write bs blk offset sz data async st)) =
           (if fst (next_status st1) = CL_SUCCESS then Suc (cl_events st1) else cl_events st1)"
    and "cl_callbacks (snd (block_write bs blk offset sz data async st)) =
           (if async \<and> fst (next_status st1) = CL_SUCCESS
            then cl_callbacks st1 @ [Suc (cl_events st1)] else cl_callbacks st1)"
    and "pool (snd (block_write bs blk offset sz data async st)) = pool st"
    and "total_blocks (snd (block_write bs blk offset sz data async st)) = total_blocks st"
  unfolding st1
  by (simp_all add: block_write_def Let_def next_status_eq split_beta clear_buffer_def cong: if_cong)

lemma clear_buffer_keeps:
  "cl_events (snd (clear_buffer bs buf st)) = cl_events st"
  "cl_callbacks (snd (clear_buffer bs buf st)) = cl_callbacks st"
  by (simp_all add: clear_buffer_def next_status_eq)

text \<open>
  What \<open>block::write\<close> does on every call, and what follows when the device accepts
  every call. After the call, synchronous or asynchronous, the block is not dirty; on
  a dirty block with \<open>size\<close> different from the block size the clearing is issued
  first and the write after it, otherwise the write alone; \<open>last_write\<close> is the event
  that the write created, and null when it created none. When the device accepts the
  calls, one event is created, the written bytes are in the buffer and, in
  asynchronous mode, the callback is registered on that event; and after a partial
  write on a dirty block (the zero buffer holding zeros where the device has no fill
  command) every byte outside \<open>[offset, offset + size)\<close> is zero and a read of any
  range outside that interval returns zero bytes.
\<close>

lemma block_write_accepted:
  "\<not> dirty (fst (block_write bs blk offset sz data async st)) \<and>
   buffer (fst (block_write bs blk offset sz data async st)) = buffer blk \<and>
   cl_issued (snd (block_write bs blk offset sz data async st)) =
     cl_issued st @
       (if dirty blk \<and> sz \<noteq> bs
        then [if has_fillbuffer st then FillBuffer (buffer blk) 0 bs
              else CopyBuffer (zero_buffer st) (buffer blk) 0 0 bs]
        else []) @
       [WriteBuffer (buffer blk) (\<not> async) offset sz (take (unat sz) data)] \<and>
   last_write (fst (block_write bs blk offset sz data async st)) =
     (if cl_events (snd (block_write bs blk offset sz data async st)) = cl_events st then 0
      else cl_events (snd (block_write bs blk offset sz data async st))) \<and>
   ((\<forall>s\<in>set (cl_statuses st). s = CL_SUCCESS) \<longrightarrow>
      cl_events (snd (block_write bs blk offset sz data async st)) = Suc (cl_events st) \<and>
      last_write (fst (block_write bs blk offset sz data async st)) = Suc (cl_events st) \<and>
      cl_callbacks (snd (block_write bs blk offset sz data async st)) =
        cl_callbacks st @ (if async then [Suc (cl_events st)] else []) \<and>
      (\<forall>k<min (unat sz) (length data).
         cl_memory (snd (block_write bs blk offset sz data async st)) (buffer blk) (unat offset + k) =
           data ! k) \<and>
      (dirty blk \<and> sz \<noteq> bs \<and>
       (has_fillbuffer st \<or> (\<forall>k<unat bs. cl_memory st (zero_buffer st) k = 0)) \<longrightarrow>
         (\<forall>k<unat bs. k < unat offset \<or> unat offset + unat sz \<le> k \<longrightarrow>
            cl_memory (snd (block_write bs blk offset sz data async st)) (buffer blk) k = 0) \<and>
         (\<forall>off2 sz2 out.
            unat off2 + unat sz2 \<le> unat bs \<and>
            (unat off2 + unat sz2 \<le> unat offset \<or> unat offset + unat sz \<le> unat off2) \<longrightarrow>
            fst (block_read (fst (block_write bs blk offset sz data async st)) off2 sz2 out
                   (snd (block_write bs blk offset sz data async st))) =
              replicate (unat sz2) 0 @ drop (unat sz2) out)))"
proof -
  define st1 where
    "st1 = (if dirty blk \<and> sz \<noteq> bs then snd (clear_buffer bs (buffer blk) st) else st)"
  note w = block_write_proj [OF st1_def, of offset data async]
  note w2 = block_write_proj2 [OF st1_def, of offset data async]
  let ?blk' = "fst (block_write bs blk offset sz data async st)"
  let ?st' = "snd (block_write bs blk offset sz data async st)"
  have ev: "cl_events st1 = cl_events st" and cb: "cl_callbacks st1 = cl_callbacks st"
    by (simp_all add: st1_def clear_buffer_keeps)
  have p1: "\<not> dirty ?blk'" by (simp add: w(1))
  have p1': "buffer ?blk' = buffer blk" by (simp add: w(2))
  have p2: "cl_issued ?st' =
     cl_issued st @
       (if dirty blk \<and> sz \<noteq> bs
        then [if has_fillbuffer st then FillBuffer (buffer blk) 0 bs
              else CopyBuffer (zero_buffer st) (buffer blk) 0 0 bs]
        else []) @
       [WriteBuffer (buffer blk) (\<not> async) offset sz (take (unat sz) data)]"
    by (simp add: w(4) st1_def clear_buffer_issued)
  have p2': "last_write ?blk' = (if cl_events ?st' = cl_events st then 0 else cl_events ?st')"
    by (simp add: w(3) w2(1) ev)
  have p3: "cl_events ?st' = Suc (cl_events st) \<and>
      last_write ?blk' = Suc (cl_events st) \<and>
      cl_callbacks ?st' = cl_callbacks st @ (if async then [Suc (cl_events st)] else []) \<and>
      (\<forall>k<min (unat sz) (length data). cl_memory ?st' (buffer blk) (unat offset + k) = data ! k) \<and>
      (dirty blk \<and> sz \<noteq> bs \<and>
       (has_fillbuffer st \<or> (\<forall>k<unat bs. cl_memory st (zero_buffer st) k = 0)) \<longrightarrow>
         (\<forall>k<unat bs. k < unat offset \<or> unat offset + unat sz \<le> k \<longrightarrow>
            cl_memory ?st' (buffer blk) k = 0) \<and>
         (\<forall>off2 sz2 out.
            unat off2 + unat sz2 \<le> unat bs \<and>
            (unat off2 + unat sz2 \<le> unat offset \<or> unat offset + unat sz \<le> unat off2) \<longrightarrow>
            fst (block_read ?blk' off2 sz2 out ?st') = replicate (unat sz2) 0 @ drop (unat sz2) out))"
    if ok: "\<forall>s\<in>set (cl_statuses st). s = CL_SUCCESS"
  proof (intro conjI impI)
    have ok1: "\<forall>s\<in>set (cl_statuses st1). s = CL_SUCCESS"
      using ok clear_buffer_statuses_ok [OF ok] by (simp add: st1_def)
    have r: "fst (next_status st1) = CL_SUCCESS"
      by (rule next_status_all_ok(1) [OF ok1])
    show "cl_events ?st' = Suc (cl_events st)"
      by (simp add: w2(1) r ev)
    show "last_write ?blk' = Suc (cl_events st)"
      by (simp add: w(3) r ev)
    show "cl_callbacks ?st' = cl_callbacks st @ (if async then [Suc (cl_events st)] else [])"
      by (simp add: w2(2) r ev cb)
    show "\<forall>k<min (unat sz) (length data). cl_memory ?st' (buffer blk) (unat offset + k) = data ! k"
      by (simp add: w(6) r)
    assume a: "dirty blk \<and> sz \<noteq> bs \<and>
       (has_fillbuffer st \<or> (\<forall>k<unat bs. cl_memory st (zero_buffer st) k = 0))"
    then have st1: "st1 = snd (clear_buffer bs (buffer blk) st)"
      by (simp add: st1_def)
    have zero: "cl_memory st1 (buffer blk) k = 0" if "k < unat bs" for k
      unfolding st1 using ok a that by (intro clear_buffer_zeroes) simp_all
    have outside: "cl_memory ?st' (buffer blk) k = 0"
      if "k < unat bs" and "k < unat offset \<or> unat offset + unat sz \<le> k" for k
      using that zero [OF that(1)] by (auto simp: w(6) r)
    then show "\<forall>k<unat bs. k < unat offset \<or> unat offset + unat sz \<le> k \<longrightarrow>
            cl_memory ?st' (buffer blk) k = 0"
      by blast
    have ok': "\<forall>s\<in>set (cl_statuses ?st'). s = CL_SUCCESS"
      using next_status_all_ok(2) [OF ok1] by (simp add: w(5) next_status_eq)
    have r': "fst (next_status ?st') = CL_SUCCESS"
      by (rule next_status_all_ok(1) [OF ok'])
    show "\<forall>off2 sz2 out.
            unat off2 + unat sz2 \<le> unat bs \<and>
            (unat off2 + unat sz2 \<le> unat offset \<or> unat offset + unat sz \<le> unat off2) \<longrightarrow>
            fst (block_read ?blk' off2 sz2 out ?st') = replicate (unat sz2) 0 @ drop (unat sz2) out"
    proof (intro allI impI)
      fix off2 sz2 :: size_t and out :: "byte list"
      assume b: "unat off2 + unat sz2 \<le> unat bs \<and>
            (unat off2 + unat sz2 \<le> unat offset \<or> unat offset + unat sz \<le> unat off2)"
      have "map (\<lambda>k. cl_memory ?st' (buffer blk) (unat off2 + k)) [0..<unat sz2] =
            replicate (unat sz2) 0"
      proof (rule map_all_zero)
        fix k assume "k < unat sz2"
        with b show "cl_memory ?st' (buffer blk) (unat off2 + k) = 0"
          by (intro outside) auto
      qed
      moreover have "cl_memory (snd (next_status ?st')) = cl_memory ?st'"
        by (simp add: next_status_eq)
      ultimately show "fst (block_read ?blk' off2 sz2 out ?st') =
          replicate (unat sz2) 0 @ drop (unat sz2) out"
        using r' by (simp add: block_read_def w(1,2) split_beta)
    qed
  qed
  from p1 p1' p2 p2' p3 show ?thesis by blast
qed


text \<open>
  The status of \<open>clear_buffer\<close> is dropped in \<open>block::write\<close>, where
  \<open>increase_pool\<close> compares it with \<open>CL_SUCCESS\<close>. When the device rejects the clearing
  in a partial write on a dirty block, the block is marked clean all the same and
  every byte outside \<open>[offset, offset + size)\<close> is what the buffer held before.
\<close>

lemma block_write_keeps_stale_bytes:
  assumes "dirty blk" and "sz \<noteq> bs"
    and "cl_statuses st = r # rest" and "r \<noteq> CL_SUCCESS"
    and "k < unat offset \<or> unat offset + unat sz \<le> k"
  shows "\<not> dirty (fst (block_write bs blk offset sz data async st)) \<and>
         cl_memory (snd (block_write bs blk offset sz data async st)) (buffer blk) k =
           cl_memory st (buffer blk) k"
proof -
  define st1 where
    "st1 = (if dirty blk \<and> sz \<noteq> bs then snd (clear_buffer bs (buffer blk) st) else st)"
  note w = block_write_proj [OF st1_def, of offset data async]
  have "cl_memory st1 = cl_memory st"
    using assms(1-4) by (simp add: st1_def clear_buffer_def next_status_def)
  with assms(5) show ?thesis
    by (auto simp: w(1) w(6))
qed

text \<open>
  Claim C4 is not met by the code when the device rejects the clearing. A dirty
  block of size 4 lies on a buffer that holds the bytes 255 of an earlier use; a read
  of byte 3 returns 0. The two bytes 7, 8 are written at offset 1, synchronously, on a
  device that rejects the fill with the status -5 and accepts the write: the fill and
  the write are issued in this order, the block becomes clean with the event of the
  write as \<open>last_write\<close>, the buffer holds 255, 7, 8, 255, and the read of byte 3, which
  lies outside \<open>[1, 3)\<close>, now returns 255 where the claim says 0. On a device that
  accepts the fill, the same calls leave 0, 7, 8, 0 and the read returns 0.
\<close>

theorem block_write_rejected_clear:
  "fst (block_read \<lparr>buffer = 2, dirty = True, last_write = 0\<rparr> 3 1 [9] (example_state [- 5, 0])) = [0] \<and>
   cl_issued (snd (block_write 4 \<lparr>buffer = 2, dirty = True, last_write = 0\<rparr> 1 2 [7, 8] False
                    (example_state [- 5, 0]))) =
     [FillBuffer 2 0 4, WriteBuffer 2 True 1 2 [7, 8]] \<and>
   fst (block_write 4 \<lparr>buffer = 2, dirty = True, last_write = 0\<rparr> 1 2 [7, 8] False
          (example_state [- 5, 0])) = \<lparr>buffer = 2, dirty = False, last_write = 1\<rparr> \<and>
   map (cl_memory (snd (block_write 4 \<lparr>buffer = 2, dirty = True, last_write = 0\<rparr> 1 2 [7, 8] False
                          (example_state [- 5, 0]))) 2) [0, 1, 2, 3] = [255, 7, 8, 255] \<and>
   fst (block_read (fst (block_write 4 \<lparr>buffer = 2, dirty = True, last_write = 0\<rparr> 1 2 [7, 8] False
                           (example_state [- 5, 0])))
          3 1 [9]
          (snd (block_write 4 \<lparr>buffer = 2, dirty = True, last_write = 0\<rparr> 1 2 [7, 8] False
                  (example_state [- 5, 0])))) = [255] \<and>
   map (cl_memory (snd (block_write 4 \<lparr>buffer = 2, dirty = True, last_write = 0\<rparr> 1 2 [7, 8] False
                          (example_state []))) 2) [0, 1, 2, 3] = [0, 7, 8, 0] \<and>
   fst (block_read (fst (block_write 4 \<lparr>buffer = 2, dirty = True, last_write = 0\<rparr> 1 2 [7, 8] False
                           (example_state [])))
          3 1 [9]
          (snd (block_write 4 \<lparr>buffer = 2, dirty = True, last_write = 0\<rparr> 1 2 [7, 8] False
                  (example_state [])))) = [0]"
  by (simp add: block_write_def block_read_def clear_buffer_def next_status_def example_state_def
        CL_SUCCESS_def Let_def)

end
